theory Spec2Isabelle
  imports
    Complex_Main
    "HOL-Library.AList"
    "HOL-Library.Char_ord"
    "HOL-Library.List_Lexorder"
begin

section \<open>Data model (types/intake.ts, types/plan.ts)\<close>

text \<open>
  The string-literal unions of the source are datatypes. In the workout generators and the
  strength scheduler a JavaScript \<open>number\<close> that holds a distance, a duration or a pace is an
  exact rational (IEEE rounding is not modelled there) and \<open>Math.round x\<close> is
  \<open>\<lfloor>x + 1/2\<rfloor>\<close>; the week totals are computed in IEEE 754 double arithmetic (section
  ``JavaScript numbers''). An optional field is an \<open>option\<close>.
  A JavaScript \<open>Map\<close> that is only read with \<open>get\<close> is a partial function; a \<open>Map\<close> that is
  built with \<open>set\<close> and later iterated is an association list in insertion order, and
  \<open>Map.set\<close> is \<open>AList.update\<close> (an existing key keeps its place, a new key goes last).
\<close>

datatype DayOfWeek = Monday | Tuesday | Wednesday | Thursday | Friday | Saturday | Sunday

datatype RunType =
  Rest | Easy | Long | Tempo | Intervals | Fartlek | Race_pace | Recovery
  | Cross_training | Hill_repeats | Progression

datatype StrengthType = Full_body | Upper_body | Lower_body | Core | Mobility

datatype Phase = Base | Build | Peak | Taper | Race

datatype PlanLevel = Conservative | Moderate | Ambitious

record StrengthPreferences =
  daysPerWeek :: int
  preferredDays :: "DayOfWeek list"
  avoidBeforeLongRun :: bool
  pref_notes :: "string option"

text \<open>\<open>StrengthAllocation\<close> of strength-scheduler.ts (fields \<open>day\<close>, \<open>type\<close>, \<open>timing\<close>,
  \<open>duration\<close>, \<open>notes\<close>).\<close>

record StrengthAllocation =
  alloc_day :: DayOfWeek
  alloc_type :: StrengthType
  timing :: string
  duration :: rat
  alloc_notes :: "string option"

definition Math_round :: "rat \<Rightarrow> rat" where
  "Math_round x = of_int \<lfloor>x + 1 / 2\<rfloor>"

section \<open>JavaScript numbers (IEEE 754 binary64)\<close>

text \<open>
  A \<open>number\<close> is a finite double, given by the rational it stands for, an infinity or
  \<open>NaN\<close>. The two zeros are not told apart: \<open>-0\<close> is \<open>Finite 0\<close>.
\<close>

datatype number = Finite rat | PlusInfinity | MinusInfinity | NaN

text \<open>Rounding to the nearest integer, a tie going to the even neighbour.\<close>

definition roundHalfEven :: "rat \<Rightarrow> int" where
  "roundHalfEven m =
     (let f = \<lfloor>m\<rfloor>
      in if m - of_int f < 1 / 2 then f
         else if 1 / 2 < m - of_int f then f + 1
         else if even f then f else f + 1)"

text \<open>
  The exponent \<open>e\<close> of a positive normal magnitude, \<open>2^e \<le> a < 2^(e+1)\<close> with \<open>e\<close> between
  \<open>-1022\<close> and \<open>1023\<close>; below \<open>2^-1022\<close> (subnormal numbers) the exponent stays \<open>-1022\<close>.
\<close>

definition exponentRange :: "int list" where
  "exponentRange = [- 1022 .. 1023]"

definition binaryExponent :: "rat \<Rightarrow> int" where
  "binaryExponent a =
     (case List.find (\<lambda>e. 2 powi e \<le> a \<and> a < 2 powi (e + 1)) exponentRange of
        Some e \<Rightarrow> e
      | None \<Rightarrow> - 1022)"

text \<open>
  A magnitude rounded to 53 significant bits: the spacing of the doubles around \<open>a\<close> is
  \<open>2^(e-52)\<close>, and \<open>a\<close> goes to the nearest multiple of it, a tie to the even one.
\<close>

definition roundMagnitude :: "rat \<Rightarrow> rat" where
  "roundMagnitude a =
     (let q = binaryExponent a - 52
      in of_int (roundHalfEven (a / 2 powi q)) * 2 powi q)"

text \<open>
  The double nearest to a rational (round to nearest, ties to even): the value that a
  numeric literal denotes, and the value that an arithmetic operation returns for its exact
  result. A magnitude that rounds to \<open>2^1024\<close> or more becomes an infinity.
\<close>

definition toNumber :: "rat \<Rightarrow> number" where
  "toNumber x =
     (let a = \<bar>x\<bar>; y = roundMagnitude a
      in if 2 ^ 1024 \<le> a \<or> 2 ^ 1024 \<le> y
         then (if 0 < x then PlusInfinity else MinusInfinity)
         else Finite (if 0 \<le> x then y else - y))"






section \<open>Strength scheduler (generators/strength-scheduler.ts)\<close>

definition DAYS_IN_ORDER :: "DayOfWeek list" where
  "DAYS_IN_ORDER = [Monday, Tuesday, Wednesday, Thursday, Friday, Saturday, Sunday]"

text \<open>\<open>Array.prototype.indexOf\<close>: the first index of the element, \<open>-1\<close> when it is absent.\<close>

fun indexOf :: "'a list \<Rightarrow> 'a \<Rightarrow> int" where
  "indexOf [] x = -1"
| "indexOf (y # ys) x =
     (if y = x then 0 else (let i = indexOf ys x in if i < 0 then -1 else i + 1))"

definition isSpeedWorkout :: "RunType \<Rightarrow> bool" where
  "isSpeedWorkout runType \<longleftrightarrow>
     runType \<in> set [Tempo, Intervals, Hill_repeats, Fartlek, Race_pace]"

definition isLongRun :: "RunType \<Rightarrow> bool" where
  "isLongRun runType \<longleftrightarrow> runType \<in> set [Long, Progression]"

definition getPreviousDay :: "DayOfWeek \<Rightarrow> DayOfWeek" where
  "getPreviousDay day =
     (let idx = indexOf DAYS_IN_ORDER day in DAYS_IN_ORDER ! nat ((idx - 1 + 7) mod 7))"

definition getNextDay :: "DayOfWeek \<Rightarrow> DayOfWeek" where
  "getNextDay day =
     (let idx = indexOf DAYS_IN_ORDER day in DAYS_IN_ORDER ! nat ((idx + 1) mod 7))"

text \<open>\<open>w && p(w)\<close> on an optional run type: a run type is a non-empty string, so it is
  truthy exactly when it is present.\<close>

definition truthyAnd :: "RunType option \<Rightarrow> (RunType \<Rightarrow> bool) \<Rightarrow> bool" where
  "truthyAnd w p = (case w of None \<Rightarrow> False | Some t \<Rightarrow> p t)"

text \<open>The source computes \<open>dayAfterWorkout\<close> and never reads it; the model keeps the
  binding to show that.\<close>

definition canDoHeavyLegs :: "DayOfWeek \<Rightarrow> (DayOfWeek \<Rightarrow> RunType option) \<Rightarrow> bool" where
  "canDoHeavyLegs day weekWorkouts =
     (let prevDay = getPreviousDay day;
          nextDay = getNextDay day;
          dayAfterNext = getNextDay nextDay;
          prevWorkout = weekWorkouts prevDay;
          nextWorkout = weekWorkouts nextDay;
          dayAfterWorkout = weekWorkouts dayAfterNext
      in if truthyAnd prevWorkout isSpeedWorkout then False
         else if truthyAnd nextWorkout isSpeedWorkout then False
         else if truthyAnd nextWorkout isLongRun then False
         else True)"

definition canLiftOnDay :: "DayOfWeek \<Rightarrow> (DayOfWeek \<Rightarrow> RunType option) \<Rightarrow> bool" where
  "canLiftOnDay day weekWorkouts =
     (let nextDay = getNextDay day;
          nextWorkout = weekWorkouts nextDay
      in if truthyAnd nextWorkout isLongRun then False else True)"

fun baseDurations :: "StrengthType \<Rightarrow> rat" where
  "baseDurations Full_body = 35"
| "baseDurations Lower_body = 40"
| "baseDurations Upper_body = 30"
| "baseDurations Core = 20"
| "baseDurations Mobility = 15"

definition getStrengthDuration :: "StrengthType \<Rightarrow> Phase \<Rightarrow> bool \<Rightarrow> rat" where
  "getStrengthDuration type phase isRecoveryWeek =
     (if isRecoveryWeek then (if type = Core then 15 else 25)
      else let base = baseDurations type
           in if phase = Peak then Math_round (base * (7 / 10))
              else if phase = Taper then Math_round (base * (1 / 2))
              else base)"

text \<open>The preferred weekly count is an integer (the intake parser reads one digit);
  \<open>Math.ceil (preferredDays / 2)\<close> is the ceiling of the exact quotient.\<close>

definition getStrengthDaysForPhase :: "int \<Rightarrow> Phase \<Rightarrow> bool \<Rightarrow> int" where
  "getStrengthDaysForPhase preferred phase isRecoveryWeek =
     (if isRecoveryWeek then 1
      else case phase of
             Base \<Rightarrow> preferred
           | Build \<Rightarrow> max 1 (preferred - 1)
           | Peak \<Rightarrow> min 2 \<lceil>(of_int preferred :: rat) / 2\<rceil>
           | Taper \<Rightarrow> 0
           | Race \<Rightarrow> 0)"

text \<open>The state of the allocation loop: the \<open>allocations\<close> map and the three counters.\<close>

record AllocState =
  allocations :: "(DayOfWeek \<times> StrengthAllocation) list"
  legsScheduled :: bool
  upperScheduled :: bool
  sessionsScheduled :: nat

definition runTiming :: "RunType option \<Rightarrow> string" where
  "runTiming dayRun = (case dayRun of Some r \<Rightarrow> ''After run'' | None \<Rightarrow> ''Any time'')"

text \<open>The \<open>if\<close> chain in the body of \<open>for (const day of sortedDays)\<close>: it picks
  \<open>type\<close>, \<open>timing\<close> and \<open>notes\<close> and the new values of the two flags.\<close>

definition chooseSession ::
  "(DayOfWeek \<Rightarrow> RunType option) \<Rightarrow> Phase \<Rightarrow> bool \<Rightarrow> DayOfWeek \<Rightarrow> AllocState
     \<Rightarrow> StrengthType \<times> string \<times> string option \<times> bool \<times> bool"
where
  "chooseSession weekWorkouts phase isRecoveryWeek day st =
     (let dayRun = weekWorkouts day;
          canDoLegs = canDoHeavyLegs day weekWorkouts
      in if isRecoveryWeek then
           (Full_body, ''Light session'',
            Some ''Recovery week - lighter weight, fewer sets'',
            legsScheduled st, upperScheduled st)
         else if phase = Peak then
           (if sessionsScheduled st = 0 then Lower_body else Core,
            ''Light - maintenance only'', None, legsScheduled st, upperScheduled st)
         else if canDoLegs \<and> \<not> legsScheduled st then
           (Lower_body, runTiming dayRun,
            if phase = Build then Some ''Build phase - reduced volume from base'' else None,
            True, upperScheduled st)
         else if \<not> upperScheduled st then
           (Upper_body, runTiming dayRun, None, legsScheduled st, True)
         else
           (Core, runTiming dayRun, None, legsScheduled st, upperScheduled st))"

text \<open>One pass of the loop body after the \<open>break\<close> test: the choice above,
  \<open>allocations.set\<close> and \<open>sessionsScheduled++\<close>.\<close>

definition allocateDay ::
  "(DayOfWeek \<Rightarrow> RunType option) \<Rightarrow> Phase \<Rightarrow> bool \<Rightarrow> DayOfWeek \<Rightarrow> AllocState \<Rightarrow> AllocState"
where
  "allocateDay weekWorkouts phase isRecoveryWeek day st =
     (case chooseSession weekWorkouts phase isRecoveryWeek day st of
        (type, tim, nts, legs, upper) \<Rightarrow>
          \<lparr> allocations =
              AList.update day
                \<lparr> alloc_day = day, alloc_type = type, timing = tim,
                  duration = getStrengthDuration type phase isRecoveryWeek,
                  alloc_notes = nts \<rparr>
                (allocations st),
            legsScheduled = legs,
            upperScheduled = upper,
            sessionsScheduled = sessionsScheduled st + 1 \<rparr>)"

fun allocateSessions ::
  "(DayOfWeek \<Rightarrow> RunType option) \<Rightarrow> Phase \<Rightarrow> bool \<Rightarrow> int \<Rightarrow> DayOfWeek list
     \<Rightarrow> AllocState \<Rightarrow> AllocState"
where
  "allocateSessions weekWorkouts phase isRecoveryWeek targetDays [] st = st"
| "allocateSessions weekWorkouts phase isRecoveryWeek targetDays (day # days) st =
     (if int (sessionsScheduled st) \<ge> targetDays then st
      else allocateSessions weekWorkouts phase isRecoveryWeek targetDays days
             (allocateDay weekWorkouts phase isRecoveryWeek day st))"

text \<open>\<open>Array.prototype.sort\<close> is stable, and so is \<open>sort_key\<close>: the preferred days come
  first, each group in weekday order.\<close>

definition sortedDays :: "DayOfWeek list \<Rightarrow> DayOfWeek list \<Rightarrow> DayOfWeek list" where
  "sortedDays preferred availableDays =
     sort_key (\<lambda>a. if a \<in> set preferred then (0::int) else 1) availableDays"

definition scheduleStrengthForWeek ::
  "(DayOfWeek \<Rightarrow> RunType option) \<Rightarrow> StrengthPreferences \<Rightarrow> Phase \<Rightarrow> bool
     \<Rightarrow> (DayOfWeek \<times> StrengthAllocation) list"
where
  "scheduleStrengthForWeek weekWorkouts preferences phase isRecoveryWeek =
     (let targetDays = getStrengthDaysForPhase (daysPerWeek preferences) phase isRecoveryWeek
      in if targetDays = 0 then []
         else
           let availableDays = filter (\<lambda>day. canLiftOnDay day weekWorkouts) DAYS_IN_ORDER;
               sorted = sortedDays (preferredDays preferences) availableDays
           in allocations
                (allocateSessions weekWorkouts phase isRecoveryWeek targetDays sorted
                   \<lparr> allocations = [], legsScheduled = False, upperScheduled = False,
                     sessionsScheduled = 0 \<rparr>))"

section \<open>Blocked dates (parsers/blocked-dates-parser.ts)\<close>

record BlockedDateRange =
  range_start :: string
  range_end :: string
  range_reason :: "string option"

text \<open>The result object \<open>{ blocked, reason? }\<close>.\<close>

record BlockedResult =
  blocked :: bool
  reason :: "string option"

definition isDigit :: "char \<Rightarrow> bool" where
  "isDigit c \<longleftrightarrow> c \<in> set ''0123456789''"

text \<open>The value of a string of decimal digits (the digit's value is its place in
  \<open>0123456789\<close>).\<close>

fun digitsValue :: "nat \<Rightarrow> string \<Rightarrow> nat" where
  "digitsValue acc [] = acc"
| "digitsValue acc (c # cs) = digitsValue (acc * 10 + nat (indexOf ''0123456789'' c)) cs"

definition isLeapYear :: "nat \<Rightarrow> bool" where
  "isLeapYear y \<longleftrightarrow> (y mod 4 = 0 \<and> y mod 100 \<noteq> 0) \<or> y mod 400 = 0"

definition daysInMonth :: "nat \<Rightarrow> nat \<Rightarrow> nat" where
  "daysInMonth y m =
     (if m = 2 then (if isLeapYear y then 29 else 28)
      else if m \<in> set [4, 6, 9, 11] then 30 else 31)"

text \<open>An ISO calendar date \<open>YYYY-MM-DD\<close> that names a day of the calendar.\<close>

definition isValidISODate :: "string \<Rightarrow> bool" where
  "isValidISODate s \<longleftrightarrow>
     length s = 10 \<and> s ! 4 = CHR ''-'' \<and> s ! 7 = CHR ''-'' \<and>
     list_all isDigit (take 4 s @ take 2 (drop 5 s) @ drop 8 s) \<and>
     (let y = digitsValue 0 (take 4 s);
          m = digitsValue 0 (take 2 (drop 5 s));
          d = digitsValue 0 (drop 8 s)
      in 1 \<le> m \<and> m \<le> 12 \<and> 1 \<le> d \<and> d \<le> daysInMonth y m)"

text \<open>
  \<open>new Date(date).toISOString().split('T')[0]\<close> for a string \<open>date\<close>. An ISO calendar date
  is read as midnight UTC and printed back unchanged. For any other string the engine
  throws \<open>RangeError\<close> (Invalid Date) or reads it by rules of its own; the model makes no
  statement there and returns \<open>None\<close>.
\<close>

definition toISODateString :: "string \<Rightarrow> string option" where
  "toISODateString date = (if isValidISODate date then Some date else None)"

text \<open>The \<open>for (const range of blockedDates)\<close> loop (\<open>rng\<close> is the source's \<open>range\<close>); strings compare lexicographically
  by character code, as \<open>>=\<close> and \<open><=\<close> do on JavaScript strings.\<close>

fun scanBlockedDates :: "string \<Rightarrow> BlockedDateRange list \<Rightarrow> BlockedResult" where
  "scanBlockedDates checkStr [] = \<lparr> blocked = False, reason = None \<rparr>"
| "scanBlockedDates checkStr (rng # ranges) =
     (if checkStr \<ge> range_start rng \<and> checkStr \<le> range_end rng
      then \<lparr> blocked = True, reason = range_reason rng \<rparr>
      else scanBlockedDates checkStr ranges)"

definition isDateBlocked :: "string \<Rightarrow> BlockedDateRange list \<Rightarrow> BlockedResult option" where
  "isDateBlocked date blockedDates =
     (case toISODateString date of
        None \<Rightarrow> None
      | Some checkStr \<Rightarrow> Some (scanBlockedDates checkStr blockedDates))"

section \<open>Workouts (generators/workout-generator.ts)\<close>

text \<open>
  \<open>RunningWorkout\<close> with the fields the week generator reads or sets: \<open>type\<close>, \<open>title\<close>,
  \<open>totalDistance\<close>, \<open>estimatedDuration\<close> and \<open>notes\<close> (here \<open>workout_notes\<close>). The descriptive fields
  (\<open>description\<close>, \<open>hrZone\<close>, \<open>structure\<close>, \<open>caloriesBurned\<close>) are left out. A pace zone is
  kept as the number of seconds per mile that \<open>paceToSeconds\<close> reads from its \<open>min\<close> bound.
\<close>

record RunningWorkout =
  rtype :: RunType
  title :: string
  totalDistance :: "rat option"
  estimatedDuration :: "rat option"
  workout_notes :: "string option"

record PaceZones =
  easy_min :: rat
  tempo_min :: rat
  interval_min :: rat
  recovery_min :: rat

text \<open>\<open>distance || d\<close>: the default replaces a missing and a zero distance.\<close>

definition orDefault :: "rat option \<Rightarrow> rat \<Rightarrow> rat" where
  "orDefault distance d = (case distance of None \<Rightarrow> d | Some x \<Rightarrow> if x = 0 then d else x)"

definition createRestDay :: "string option \<Rightarrow> RunningWorkout" where
  "createRestDay nts =
     \<lparr> rtype = Rest, title = ''Rest Day'', totalDistance = None,
       estimatedDuration = None, workout_notes = nts \<rparr>"

definition createEasyRun :: "rat \<Rightarrow> PaceZones \<Rightarrow> string \<Rightarrow> RunningWorkout" where
  "createEasyRun distance paceZones ttl =
     \<lparr> rtype = Easy, title = ttl, totalDistance = Some distance,
       estimatedDuration = Some (Math_round ((distance * easy_min paceZones) / 60)),
       workout_notes = None \<rparr>"

text \<open>\<open>createLongRun\<close> with the two option flags its callers set.\<close>

definition createLongRun :: "rat \<Rightarrow> PaceZones \<Rightarrow> Phase \<Rightarrow> bool \<Rightarrow> bool \<Rightarrow> RunningWorkout" where
  "createLongRun distance paceZones phase withProgression withMarathonPaceFinish =
     (let workout = \<lparr> rtype = Long, title = ''Long Run'', totalDistance = Some distance,
                       estimatedDuration = Some (Math_round ((distance * easy_min paceZones) / 60)),
                       workout_notes = None \<rparr>;
          workout = (if withProgression \<and> phase \<noteq> Base
                     then workout\<lparr> rtype := Progression \<rparr> else workout);
          workout = (if withMarathonPaceFinish \<and> (phase = Peak \<or> phase = Build)
                     then workout\<lparr> rtype := Race_pace \<rparr> else workout)
      in workout)"

definition createTempoRun :: "rat \<Rightarrow> PaceZones \<Rightarrow> bool \<Rightarrow> RunningWorkout" where
  "createTempoRun tempoMiles paceZones reduced =
     (let warmupMiles = (if reduced then 1 else 3 / 2);
          cooldownMiles = (if reduced then 1 else 3 / 2);
          tempoTime = (tempoMiles * tempo_min paceZones) / 60;
          warmupCooldownTime = ((warmupMiles + cooldownMiles) * easy_min paceZones) / 60
      in \<lparr> rtype = Tempo, title = (if reduced then ''Short Tempo'' else ''Tempo Run''),
           totalDistance = Some (warmupMiles + tempoMiles + cooldownMiles),
           estimatedDuration = Some (Math_round (tempoTime + warmupCooldownTime)),
           workout_notes = None \<rparr>)"

datatype IntervalKind = M400 | M800 | M1000 | M1200 | M1600 | Strides

fun intervalMeters :: "IntervalKind \<Rightarrow> rat" where
  "intervalMeters M400 = 400"
| "intervalMeters M800 = 800"
| "intervalMeters M1000 = 1000"
| "intervalMeters M1200 = 1200"
| "intervalMeters M1600 = 1600"
| "intervalMeters Strides = 100"

fun intervalName :: "IntervalKind \<Rightarrow> string" where
  "intervalName M400 = ''400m''"
| "intervalName M800 = ''800m''"
| "intervalName M1000 = ''1000m''"
| "intervalName M1200 = ''1200m''"
| "intervalName M1600 = ''1600m''"
| "intervalName Strides = ''strides''"

definition createIntervals :: "IntervalKind \<Rightarrow> rat \<Rightarrow> PaceZones \<Rightarrow> RunningWorkout" where
  "createIntervals intervalType repeats paceZones =
     (let warmupMiles = (if intervalType = Strides then 0 else 2);
          cooldownMiles = (if intervalType = Strides then 0 else 1);
          meters = intervalMeters intervalType;
          intervalMiles = (meters / (160934 / 100)) * repeats;
          recoveryMiles = (if intervalType = Strides then 0
                           else (meters / 2 / (160934 / 100)) * (repeats - 1));
          total = warmupMiles + intervalMiles + recoveryMiles + cooldownMiles;
          baseMiles = (if intervalType = Strides then 3 else 0);
          est = Math_round ((warmupMiles + cooldownMiles + baseMiles) * easy_min paceZones / 60
                            + intervalMiles * interval_min paceZones / 60
                            + (repeats - 1) * (3 / 2))
      in if intervalType = Strides then
           \<lparr> rtype = Intervals, title = ''Strides'', totalDistance = Some (total + baseMiles),
             estimatedDuration = Some est, workout_notes = None \<rparr>
         else
           \<lparr> rtype = Intervals, title = intervalName intervalType @ '' Repeats'',
             totalDistance = Some (Math_round (total * 10) / 10),
             estimatedDuration = Some est, workout_notes = None \<rparr>)"

definition createHillRepeats :: "rat \<Rightarrow> rat \<Rightarrow> PaceZones \<Rightarrow> RunningWorkout" where
  "createHillRepeats repeats durationSeconds paceZones =
     (let warmupMiles = 3 / 2;
          cooldownMiles = 3 / 2;
          hillMiles = (repeats * durationSeconds / 60) * (2 / 10);
          total = warmupMiles + hillMiles + cooldownMiles
      in \<lparr> rtype = Hill_repeats, title = ''Hill Repeats'',
           totalDistance = Some (Math_round (total * 10) / 10),
           estimatedDuration =
             Some (Math_round ((warmupMiles + cooldownMiles) * easy_min paceZones / 60
                               + repeats * (durationSeconds / 60 + 3 / 2))),
           workout_notes = None \<rparr>)"

definition createFartlek :: "rat \<Rightarrow> rat \<Rightarrow> rat \<Rightarrow> PaceZones \<Rightarrow> RunningWorkout" where
  "createFartlek totalMiles pickups pickupDurationSeconds paceZones =
     \<lparr> rtype = Fartlek, title = ''Fartlek'', totalDistance = Some totalMiles,
       estimatedDuration = Some (Math_round (totalMiles * easy_min paceZones / 60)),
       workout_notes = None \<rparr>"

definition createCrossTraining :: "rat \<Rightarrow> RunningWorkout" where
  "createCrossTraining dur =
     \<lparr> rtype = Cross_training, title = ''Cross Training'', totalDistance = None,
       estimatedDuration = Some dur, workout_notes = None \<rparr>"

definition createRecoveryRun :: "rat \<Rightarrow> PaceZones \<Rightarrow> RunningWorkout" where
  "createRecoveryRun distance paceZones =
     \<lparr> rtype = Recovery, title = ''Recovery Run'', totalDistance = Some distance,
       estimatedDuration = Some (Math_round ((distance * recovery_min paceZones) / 60)),
       workout_notes = None \<rparr>"

text \<open>\<open>generateWorkout\<close>, the \<open>switch\<close> on the run type (the \<open>level\<close> parameter is not
  read by any branch).\<close>

fun generateWorkout ::
  "RunType \<Rightarrow> rat option \<Rightarrow> Phase \<Rightarrow> bool \<Rightarrow> PaceZones \<Rightarrow> PlanLevel \<Rightarrow> RunningWorkout"
where
  "generateWorkout Rest distance phase isRecovery paceZones level = createRestDay None"
| "generateWorkout Easy distance phase isRecovery paceZones level =
     createEasyRun (orDefault distance 4) paceZones ''Easy Run''"
| "generateWorkout Long distance phase isRecovery paceZones level =
     (let longDistance = orDefault distance 12;
          useProgression = (phase \<noteq> Base \<and> \<not> isRecovery)
      in createLongRun longDistance paceZones phase (useProgression \<and> phase = Build) False)"
| "generateWorkout Tempo distance phase isRecovery paceZones level =
     (let tempoMiles = (if isRecovery then 2 else (if phase = Base then 3 else 4))
      in createTempoRun tempoMiles paceZones isRecovery)"
| "generateWorkout Intervals distance phase isRecovery paceZones level =
     createIntervals M800 (if isRecovery then 6 else 8) paceZones"
| "generateWorkout Hill_repeats distance phase isRecovery paceZones level =
     createHillRepeats (if isRecovery then 4 else 6) 60 paceZones"
| "generateWorkout Fartlek distance phase isRecovery paceZones level =
     createFartlek (orDefault distance 6) 8 60 paceZones"
| "generateWorkout Cross_training distance phase isRecovery paceZones level =
     createCrossTraining 40"
| "generateWorkout Recovery distance phase isRecovery paceZones level =
     createRecoveryRun (orDefault distance 4) paceZones"
| "generateWorkout Progression distance phase isRecovery paceZones level =
     createLongRun (orDefault distance 16) paceZones phase True False"
| "generateWorkout Race_pace distance phase isRecovery paceZones level =
     createLongRun (orDefault distance 16) paceZones phase False True"

section \<open>Dates of a week (calculators/date-math.ts)\<close>

text \<open>
  \<open>addDays\<close> and \<open>format\<close> come from the date-fns library, which is not part of the
  repository: they are parameters, over any type \<open>'date\<close> of date values.
\<close>

fun dayOffsets :: "DayOfWeek \<Rightarrow> int" where
  "dayOffsets Monday = 0"
| "dayOffsets Tuesday = 1"
| "dayOffsets Wednesday = 2"
| "dayOffsets Thursday = 3"
| "dayOffsets Friday = 4"
| "dayOffsets Saturday = 5"
| "dayOffsets Sunday = 6"

definition getDateForDay :: "('date \<Rightarrow> int \<Rightarrow> 'date) \<Rightarrow> 'date \<Rightarrow> DayOfWeek \<Rightarrow> 'date" where
  "getDateForDay addDays weekStart day = addDays weekStart (dayOffsets day)"

definition formatDateISO :: "('date \<Rightarrow> string \<Rightarrow> string) \<Rightarrow> 'date \<Rightarrow> string" where
  "formatDateISO format date = format date ''yyyy-MM-dd''"

section \<open>Week generator (generators/week-generator.ts)\<close>

text \<open>An entry \<open>{ day, type, distance? }\<close> of \<open>qualityDays\<close>.\<close>

record QualityDay =
  q_day :: DayOfWeek
  q_type :: RunType
  q_distance :: "rat option"

text \<open>\<open>WeekTemplate\<close>; its \<open>totalMileage\<close> field is \<open>templateMileage\<close> here.\<close>

record WeekTemplate =
  focus :: string
  longRunDay :: DayOfWeek
  longRunDistance :: rat
  qualityDays :: "QualityDay list"
  easyRunDays :: "DayOfWeek list"
  restDays :: "DayOfWeek list"
  crossTrainingDay :: "DayOfWeek option"
  templateMileage :: rat

type_synonym Schedule = "(DayOfWeek \<times> RunningWorkout) list"

fun bases :: "PlanLevel \<Rightarrow> rat" where
  "bases Conservative = 3"
| "bases Moderate = 4"
| "bases Ambitious = 5"

definition getDefaultEasyDistance :: "PlanLevel \<Rightarrow> Phase \<Rightarrow> rat" where
  "getDefaultEasyDistance level phase =
     (let base = bases level
      in if phase = Peak then base + 1
         else if phase = Taper then base - 1
         else base)"

definition isDayBlocked ::
  "('date \<Rightarrow> int \<Rightarrow> 'date) \<Rightarrow> ('date \<Rightarrow> string \<Rightarrow> string) \<Rightarrow> DayOfWeek \<Rightarrow> 'date
     \<Rightarrow> BlockedDateRange list \<Rightarrow> BlockedResult option"
where
  "isDayBlocked addDays format day weekStart blockedDates =
     (let date = getDateForDay addDays weekStart day
      in isDateBlocked (formatDateISO format date) blockedDates)"

text \<open>\<open>Map.has\<close> on the schedule.\<close>

definition scheduleHas :: "Schedule \<Rightarrow> DayOfWeek \<Rightarrow> bool" where
  "scheduleHas schedule day \<longleftrightarrow> day \<in> set (map fst schedule)"

text \<open>
  In the functions below \<open>blk day\<close> stands for
  \<open>isDayBlocked(day, weekStart, blockedDates)\<close>; \<open>None\<close> is the exception that escapes
  from it. The first block of \<open>generateRunningSchedule\<close>: the copy \<open>adjustedTemplate\<close>
  with the long run moved to the other weekend day, or its distance set to zero.
\<close>

definition adjustLongRun ::
  "(DayOfWeek \<Rightarrow> BlockedResult option) \<Rightarrow> WeekTemplate \<Rightarrow> BlockedResult
     \<Rightarrow> WeekTemplate option"
where
  "adjustLongRun blk template longRunBlocked =
     (if blocked longRunBlocked then
        (let altDay = (if longRunDay template = Sunday then Saturday else Sunday)
         in case blk altDay of
              None \<Rightarrow> None
            | Some altBlocked \<Rightarrow>
                if \<not> blocked altBlocked
                then Some (template\<lparr> longRunDay := altDay \<rparr>)
                else Some (template\<lparr> longRunDistance := 0 \<rparr>))
      else Some template)"

text \<open>The block under \<open>// Generate long run\<close>.\<close>

definition placeLongRun ::
  "WeekTemplate \<Rightarrow> WeekTemplate \<Rightarrow> BlockedResult \<Rightarrow> PaceZones \<Rightarrow> Phase \<Rightarrow> bool \<Rightarrow> PlanLevel
     \<Rightarrow> Schedule \<Rightarrow> Schedule"
where
  "placeLongRun template adjustedTemplate longRunBlocked paceZones phase isRecovery level schedule =
     (if longRunDistance adjustedTemplate > 0 then
        (let longRun = generateWorkout Long (Some (longRunDistance adjustedTemplate))
                         phase isRecovery paceZones level;
             longRun = (if isRecovery then longRun\<lparr> title := ''Reduced Long Run'' \<rparr>
                        else longRun)
         in AList.update (longRunDay adjustedTemplate) longRun schedule)
      else AList.update (longRunDay template) (createRestDay (reason longRunBlocked)) schedule)"

text \<open>A template string prints a missing reason as \<open>undefined\<close>.\<close>

definition reasonText :: "string option \<Rightarrow> string" where
  "reasonText r = (case r of None \<Rightarrow> ''undefined'' | Some t \<Rightarrow> t)"

text \<open>The loop \<open>for (const quality of template.qualityDays)\<close>.\<close>

fun qualityLoop ::
  "(DayOfWeek \<Rightarrow> BlockedResult option) \<Rightarrow> PaceZones \<Rightarrow> Phase \<Rightarrow> bool \<Rightarrow> PlanLevel
     \<Rightarrow> QualityDay list \<Rightarrow> Schedule \<Rightarrow> Schedule option"
where
  "qualityLoop blk paceZones phase isRecovery level [] schedule = Some schedule"
| "qualityLoop blk paceZones phase isRecovery level (quality # rest) schedule =
     (case blk (q_day quality) of
        None \<Rightarrow> None
      | Some b \<Rightarrow>
          qualityLoop blk paceZones phase isRecovery level rest
            (if blocked b then
               AList.update (q_day quality)
                 (createEasyRun (getDefaultEasyDistance level phase - 1) paceZones
                    (''Easy Run (adjusted: '' @ reasonText (reason b) @ '')''))
                 schedule
             else
               AList.update (q_day quality)
                 (generateWorkout (q_type quality) (q_distance quality)
                    phase isRecovery paceZones level)
                 schedule))"

text \<open>The loop \<open>for (const day of template.easyRunDays)\<close>.\<close>

fun easyLoop ::
  "(DayOfWeek \<Rightarrow> BlockedResult option) \<Rightarrow> PaceZones \<Rightarrow> Phase \<Rightarrow> PlanLevel
     \<Rightarrow> DayOfWeek list \<Rightarrow> Schedule \<Rightarrow> Schedule option"
where
  "easyLoop blk paceZones phase level [] schedule = Some schedule"
| "easyLoop blk paceZones phase level (day # days) schedule =
     (if scheduleHas schedule day then easyLoop blk paceZones phase level days schedule
      else case blk day of
             None \<Rightarrow> None
           | Some b \<Rightarrow>
               easyLoop blk paceZones phase level days
                 (if blocked b then AList.update day (createRestDay (reason b)) schedule
                  else AList.update day
                         (createEasyRun (getDefaultEasyDistance level phase) paceZones
                            ''Easy Run'')
                         schedule))"

text \<open>The loop \<open>for (const day of template.restDays)\<close>.\<close>

fun restLoop :: "DayOfWeek list \<Rightarrow> Schedule \<Rightarrow> Schedule" where
  "restLoop [] schedule = schedule"
| "restLoop (day # days) schedule =
     (if scheduleHas schedule day then restLoop days schedule
      else restLoop days (AList.update day (createRestDay None) schedule))"

text \<open>The block under \<open>// Generate cross training\<close>.\<close>

definition crossTrainingStep ::
  "(DayOfWeek \<Rightarrow> BlockedResult option) \<Rightarrow> WeekTemplate \<Rightarrow> Schedule \<Rightarrow> Schedule option"
where
  "crossTrainingStep blk template schedule =
     (case crossTrainingDay template of
        None \<Rightarrow> Some schedule
      | Some ctDay \<Rightarrow>
          if scheduleHas schedule ctDay then Some schedule
          else case blk ctDay of
                 None \<Rightarrow> None
               | Some b \<Rightarrow>
                   if blocked b
                   then Some (AList.update ctDay (createRestDay (reason b)) schedule)
                   else Some (AList.update ctDay (createCrossTraining 40) schedule))"

text \<open>The steps of \<open>generateRunningSchedule\<close> after the verdict on the long-run day.\<close>

definition scheduleFrom ::
  "(DayOfWeek \<Rightarrow> BlockedResult option) \<Rightarrow> WeekTemplate \<Rightarrow> PaceZones \<Rightarrow> Phase \<Rightarrow> bool
     \<Rightarrow> PlanLevel \<Rightarrow> BlockedResult \<Rightarrow> WeekTemplate \<Rightarrow> Schedule option"
where
  "scheduleFrom blk template paceZones phase isRecovery level longRunBlocked adjustedTemplate =
     (let schedule = placeLongRun template adjustedTemplate longRunBlocked
                       paceZones phase isRecovery level []
      in case qualityLoop blk paceZones phase isRecovery level (qualityDays template) schedule of
           None \<Rightarrow> None
         | Some schedule \<Rightarrow>
             (case easyLoop blk paceZones phase level (easyRunDays template) schedule of
                None \<Rightarrow> None
              | Some schedule \<Rightarrow>
                  crossTrainingStep blk template (restLoop (restDays template) schedule)))"

definition generateRunningSchedule ::
  "('date \<Rightarrow> int \<Rightarrow> 'date) \<Rightarrow> ('date \<Rightarrow> string \<Rightarrow> string) \<Rightarrow> WeekTemplate \<Rightarrow> PaceZones
     \<Rightarrow> Phase \<Rightarrow> bool \<Rightarrow> PlanLevel \<Rightarrow> BlockedDateRange list \<Rightarrow> 'date \<Rightarrow> Schedule option"
where
  "generateRunningSchedule addDays format template paceZones phase isRecovery level
       blockedDates weekStart =
     (let blk = (\<lambda>day. isDayBlocked addDays format day weekStart blockedDates)
      in case blk (longRunDay template) of
           None \<Rightarrow> None
         | Some longRunBlocked \<Rightarrow>
             (case adjustLongRun blk template longRunBlocked of
                None \<Rightarrow> None
              | Some adjustedTemplate \<Rightarrow>
                  scheduleFrom blk template paceZones phase isRecovery level
                    longRunBlocked adjustedTemplate))"




text \<open>The map \<open>workoutTypes\<close> that \<open>generateWeek\<close> builds from the running schedule and
  hands to the strength scheduler.\<close>

definition workoutTypes :: "Schedule \<Rightarrow> DayOfWeek \<Rightarrow> RunType option" where
  "workoutTypes runningSchedule = map_of (map (\<lambda>(day, workout). (day, rtype workout)) runningSchedule)"

section \<open>Notions used to state the properties\<close>

text \<open>A range contains a date when the date lies between its bounds, both included,
  in the string order that \<open>isDateBlocked\<close> compares with. On valid ISO dates this is
  the order of the calendar (lemma \<open>containsDate_calendar\<close> below).\<close>

definition containsDate :: "BlockedDateRange \<Rightarrow> string \<Rightarrow> bool" where
  "containsDate rng date \<longleftrightarrow> range_start rng \<le> date \<and> date \<le> range_end rng"

text \<open>The value of a digit, and the number \<open>yyyymmdd\<close> that an ISO date spells.\<close>

definition digitOf :: "char \<Rightarrow> nat" where
  "digitOf c = nat (indexOf ''0123456789'' c)"

definition dateNumber :: "string \<Rightarrow> nat" where
  "dateNumber s = digitsValue 0 (take 4 s @ take 2 (drop 5 s) @ drop 8 s)"






text \<open>The magnitudes of the finite doubles: a significand of at most 53 bits times a power
  of two, either normal or at the smallest exponent. A number is well formed when it is an
  infinity, \<open>NaN\<close> or a finite double.\<close>

definition representable :: "rat \<Rightarrow> bool" where
  "representable a \<longleftrightarrow>
     (\<exists>r q. a = of_int r * 2 powi q \<and> 0 \<le> r \<and>
        (q = - 1074 \<and> of_int r < (2::rat) powi 52
         \<or> - 1074 \<le> q \<and> q \<le> 971 \<and> (2::rat) powi 52 \<le> of_int r \<and> of_int r < (2::rat) powi 53))"



text \<open>The number of sessions of one type in an allocation map.\<close>

definition countType :: "StrengthType \<Rightarrow> (DayOfWeek \<times> StrengthAllocation) list \<Rightarrow> nat" where
  "countType t al = length (filter (\<lambda>p. alloc_type (snd p) = t) al)"

text \<open>Invariants of the allocation loop: a lower-body session is present only once the
  loop has recorded it (the \<open>legsScheduled\<close> flag, or the first pass of a peak week), and
  an upper-body session only once \<open>upperScheduled\<close> is set.\<close>

definition lowerInv :: "Phase \<Rightarrow> bool \<Rightarrow> AllocState \<Rightarrow> bool" where
  "lowerInv ph r st \<longleftrightarrow>
     countType Lower_body (allocations st) \<le> 1 \<and>
     ((r \<or> (if ph = Peak then sessionsScheduled st = 0 else \<not> legsScheduled st))
        \<longrightarrow> countType Lower_body (allocations st) = 0)"

definition upperInv :: "AllocState \<Rightarrow> bool" where
  "upperInv st \<longleftrightarrow>
     countType Upper_body (allocations st) \<le> 1 \<and>
     (\<not> upperScheduled st \<longrightarrow> countType Upper_body (allocations st) = 0)"

text \<open>The weekdays a template lists outside its long-run day, and the weekend day paired
  with a long-run day.\<close>

definition listedDays :: "WeekTemplate \<Rightarrow> DayOfWeek set" where
  "listedDays template =
     q_day ` set (qualityDays template) \<union> set (easyRunDays template)
       \<union> set (restDays template) \<union> set_option (crossTrainingDay template)"

definition pairedAlternate :: "DayOfWeek \<Rightarrow> DayOfWeek" where
  "pairedAlternate day = (if day = Sunday then Saturday else Sunday)"

text \<open>The long run moves to the paired day: the long-run day is blocked, the paired day is
  not, and there is a long run to place (\<open>blk\<close> gives the verdict on each day).\<close>

definition longRunMoves :: "(DayOfWeek \<Rightarrow> BlockedResult option) \<Rightarrow> WeekTemplate \<Rightarrow> bool" where
  "longRunMoves blk template \<longleftrightarrow>
     map_option blocked (blk (longRunDay template)) = Some True \<and>
     map_option blocked (blk (pairedAlternate (longRunDay template))) = Some False \<and>
     0 < longRunDistance template"


text \<open>The weekdays that hold a workout in a schedule, and the day on which the block
  under \<open>// Generate long run\<close> writes.\<close>

definition scheduleDays :: "Schedule \<Rightarrow> DayOfWeek set" where
  "scheduleDays schedule = fst ` set schedule"

definition longRunSlot :: "WeekTemplate \<Rightarrow> WeekTemplate \<Rightarrow> DayOfWeek" where
  "longRunSlot template adjustedTemplate =
     (if longRunDistance adjustedTemplate > 0 then longRunDay adjustedTemplate
      else longRunDay template)"

text \<open>What the generator may put on a blocked day: a rest day with the block's reason or
  with no note, or the easy run that replaces a quality session. \<open>blockedOk\<close> says that a
  schedule holds nothing else on the days that \<open>blk\<close> reports as blocked.\<close>

definition allowedOnBlocked ::
  "PaceZones \<Rightarrow> Phase \<Rightarrow> PlanLevel \<Rightarrow> BlockedResult \<Rightarrow> RunningWorkout \<Rightarrow> bool"
where
  "allowedOnBlocked paceZones phase level b w \<longleftrightarrow>
     w = createRestDay (reason b) \<or> w = createRestDay None \<or>
     w = createEasyRun (getDefaultEasyDistance level phase - 1) paceZones
           (''Easy Run (adjusted: '' @ reasonText (reason b) @ '')'')"

definition blockedOk ::
  "(DayOfWeek \<Rightarrow> BlockedResult option) \<Rightarrow> PaceZones \<Rightarrow> Phase \<Rightarrow> PlanLevel \<Rightarrow> Schedule
     \<Rightarrow> bool"
where
  "blockedOk blk paceZones phase level schedule \<longleftrightarrow>
     (\<forall>d b w. blk d = Some b \<and> blocked b \<and> map_of schedule d = Some w
        \<longrightarrow> allowedOnBlocked paceZones phase level b w)"

text \<open>The dates of a week all format to ISO calendar dates.\<close>

definition weekDatesValid ::
  "('date \<Rightarrow> int \<Rightarrow> 'date) \<Rightarrow> ('date \<Rightarrow> string \<Rightarrow> string) \<Rightarrow> 'date \<Rightarrow> bool"
where
  "weekDatesValid addDays format weekStart \<longleftrightarrow>
     list_all (\<lambda>day. isValidISODate (formatDateISO format (getDateForDay addDays weekStart day)))
       DAYS_IN_ORDER"

section \<open>Worked inputs\<close>

text \<open>
  A calendar standing in for date-fns in the worked examples: a date is the day of
  February 2026 as a number, \<open>febAddDays\<close> adds to it and \<open>febFormat\<close> prints
  \<open>2026-02-dd\<close>.
\<close>

definition febAddDays :: "nat \<Rightarrow> int \<Rightarrow> nat" where
  "febAddDays date n = nat (int date + n)"

definition digitChar :: "nat \<Rightarrow> char" where
  "digitChar n = ''0123456789'' ! (n mod 10)"

definition febFormat :: "nat \<Rightarrow> string \<Rightarrow> string" where
  "febFormat date pattern = ''2026-02-'' @ [digitChar (date div 10), digitChar date]"

text \<open>Monday 16 February 2026.\<close>

definition exampleWeekStart :: nat where
  "exampleWeekStart = 16"

definition examplePaceZones :: PaceZones where
  "examplePaceZones =
     \<lparr> easy_min = 600, tempo_min = 510, interval_min = 450, recovery_min = 660 \<rparr>"

text \<open>The second base-phase week of templates/base-phase.ts at the moderate level.\<close>

definition baseWeekTemplate :: WeekTemplate where
  "baseWeekTemplate =
     \<lparr> focus = ''Continue building base, introduce tempo'',
       longRunDay = Sunday, longRunDistance = 10,
       qualityDays = [\<lparr> q_day = Tuesday, q_type = Tempo, q_distance = None \<rparr>],
       easyRunDays = [Monday, Wednesday, Friday],
       restDays = [Thursday],
       crossTrainingDay = Some Saturday,
       templateMileage = 28 \<rparr>"

text \<open>The same week with no cross-training day: Saturday is not listed.\<close>

definition sixDayTemplate :: WeekTemplate where
  "sixDayTemplate = baseWeekTemplate\<lparr> crossTrainingDay := None \<rparr>"

definition sundayTravel :: "BlockedDateRange list" where
  "sundayTravel =
     [\<lparr> range_start = ''2026-02-22'', range_end = ''2026-02-22'',
        range_reason = Some ''Work travel'' \<rparr>]"

definition fridaySkiing :: "BlockedDateRange list" where
  "fridaySkiing =
     [\<lparr> range_start = ''2026-02-20'', range_end = ''2026-02-20'',
        range_reason = Some ''Skiing'' \<rparr>]"

text \<open>Away from Tuesday to Sunday.\<close>

definition weekAway :: "BlockedDateRange list" where
  "weekAway =
     [\<lparr> range_start = ''2026-02-17'', range_end = ''2026-02-22'',
        range_reason = Some ''Skiing'' \<rparr>]"

definition overlappingRanges :: "BlockedDateRange list" where
  "overlappingRanges =
     [\<lparr> range_start = ''2026-02-10'', range_end = ''2026-02-12'', range_reason = Some ''Exam'' \<rparr>,
      \<lparr> range_start = ''2026-02-15'', range_end = ''2026-02-22'',
        range_reason = Some ''Work travel'' \<rparr>,
      \<lparr> range_start = ''2026-02-18'', range_end = ''2026-02-18'', range_reason = Some ''Skiing'' \<rparr>]"


text \<open>The run types of the base week when no date is blocked.\<close>

definition realizedBaseWeek :: "DayOfWeek \<Rightarrow> RunType option" where
  "realizedBaseWeek =
     [Monday \<mapsto> Easy, Tuesday \<mapsto> Tempo, Wednesday \<mapsto> Easy, Thursday \<mapsto> Rest,
      Friday \<mapsto> Easy, Saturday \<mapsto> Cross_training, Sunday \<mapsto> Long]"

text \<open>A week with long runs from Tuesday to Saturday: only Saturday and Sunday pass
  \<open>canLiftOnDay\<close>.\<close>

definition longRunHeavyWeek :: "DayOfWeek \<Rightarrow> RunType option" where
  "longRunHeavyWeek =
     [Tuesday \<mapsto> Long, Wednesday \<mapsto> Long, Thursday \<mapsto> Long, Friday \<mapsto> Long,
      Saturday \<mapsto> Long]"

definition sundayFirst :: StrengthPreferences where
  "sundayFirst =
     \<lparr> daysPerWeek = 1, preferredDays = [Sunday], avoidBeforeLongRun = True,
       pref_notes = None \<rparr>"

text \<open>One session a week, with a single preferred day.\<close>

definition onlyDay :: "DayOfWeek \<Rightarrow> StrengthPreferences" where
  "onlyDay d =
     \<lparr> daysPerWeek = 1, preferredDays = [d], avoidBeforeLongRun = True, pref_notes = None \<rparr>"

definition threeSessions :: StrengthPreferences where
  "threeSessions =
     \<lparr> daysPerWeek = 3, preferredDays = [], avoidBeforeLongRun = True, pref_notes = None \<rparr>"

section \<open>The weekday cycle and the sequencing predicates\<close>

lemma getNextDay_simps:
  "getNextDay Monday = Tuesday" "getNextDay Tuesday = Wednesday"
  "getNextDay Wednesday = Thursday" "getNextDay Thursday = Friday"
  "getNextDay Friday = Saturday" "getNextDay Saturday = Sunday"
  "getNextDay Sunday = Monday"
  by (simp_all add: getNextDay_def DAYS_IN_ORDER_def)

lemma getPreviousDay_simps:
  "getPreviousDay Monday = Sunday" "getPreviousDay Tuesday = Monday"
  "getPreviousDay Wednesday = Tuesday" "getPreviousDay Thursday = Wednesday"
  "getPreviousDay Friday = Thursday" "getPreviousDay Saturday = Friday"
  "getPreviousDay Sunday = Saturday"
  by (simp_all add: getPreviousDay_def DAYS_IN_ORDER_def)

lemma getPreviousDay_getNextDay: "getPreviousDay (getNextDay d) = d"
  by (cases d) (simp_all add: getNextDay_simps getPreviousDay_simps)

lemma isLongRun_iff: "isLongRun t \<longleftrightarrow> t = Long \<or> t = Progression"
  by (auto simp: isLongRun_def)

lemma isSpeedWorkout_iff:
  "isSpeedWorkout t \<longleftrightarrow>
     t = Tempo \<or> t = Intervals \<or> t = Hill_repeats \<or> t = Fartlek \<or> t = Race_pace"
  by (auto simp: isSpeedWorkout_def)

lemma canLiftOnDay_iff:
  "canLiftOnDay d ww \<longleftrightarrow> ww (getNextDay d) \<notin> {Some Long, Some Progression}"
  by (auto simp: canLiftOnDay_def Let_def truthyAnd_def isLongRun_iff split: option.splits)

text \<open>What \<open>canDoHeavyLegs\<close> tests: the previous and the next day for a speed run, and
  the next day for a long run.\<close>

lemma canDoHeavyLegs_iff:
  "canDoHeavyLegs d ww \<longleftrightarrow>
     \<not> truthyAnd (ww (getPreviousDay d)) isSpeedWorkout
     \<and> \<not> truthyAnd (ww (getNextDay d)) isSpeedWorkout
     \<and> \<not> truthyAnd (ww (getNextDay d)) isLongRun"
  by (simp add: canDoHeavyLegs_def Let_def)

section \<open>The allocation loop\<close>

lemma count_update_le:
  "length (filter (\<lambda>p. P (snd p)) (AList.update k v al))
     \<le> length (filter (\<lambda>p. P (snd p)) al) + (if P v then 1 else 0)"
  by (induction al) auto

lemma countType_update:
  "countType t (AList.update k v al) \<le> countType t al + (if alloc_type v = t then 1 else 0)"
  unfolding countType_def by (rule count_update_le)

lemma sessions_allocateDay [simp]:
  "sessionsScheduled (allocateDay ww ph r d st) = Suc (sessionsScheduled st)"
  by (simp add: allocateDay_def split: prod.splits)

lemma keys_allocateDay:
  "map fst (allocations (allocateDay ww ph r d st)) =
     (if d \<in> set (map fst (allocations st)) then map fst (allocations st)
      else map fst (allocations st) @ [d])"
  by (simp add: allocateDay_def update_keys split: prod.splits)

text \<open>The loop adds one entry per visited day until the target is met or the days run
  out; the keys stay distinct and come from the days visited.\<close>

lemma allocateSessions_keys:
  "distinct days \<Longrightarrow> set days \<inter> set (map fst (allocations st)) = {} \<Longrightarrow>
   distinct (map fst (allocations st)) \<Longrightarrow>
   length (allocations st) = sessionsScheduled st \<Longrightarrow>
   set (map fst (allocations (allocateSessions ww ph r tgt days st)))
      \<subseteq> set (map fst (allocations st)) \<union> set days \<and>
   distinct (map fst (allocations (allocateSessions ww ph r tgt days st))) \<and>
   length (allocations (allocateSessions ww ph r tgt days st))
      = max (sessionsScheduled st) (min (nat tgt) (sessionsScheduled st + length days))"
proof (induction days arbitrary: st)
  case Nil
  then show ?case by simp
next
  case (Cons d days)
  show ?case
  proof (cases "int (sessionsScheduled st) \<ge> tgt")
    case True
    with Cons.prems show ?thesis by auto
  next
    case False
    let ?st = "allocateDay ww ph r d st"
    have k: "map fst (allocations ?st) = map fst (allocations st) @ [d]"
      using Cons.prems by (auto simp: keys_allocateDay)
    have l: "length (allocations ?st) = sessionsScheduled ?st"
      using Cons.prems k by (metis length_map length_append_singleton sessions_allocateDay)
    have "distinct days" "set days \<inter> set (map fst (allocations ?st)) = {}"
      "distinct (map fst (allocations ?st))"
      using Cons.prems k by auto
    from Cons.IH[OF this l] False show ?thesis
      using k by auto
  qed
qed

lemma sortedDays_props:
  "set (sortedDays pref xs) = set xs" "length (sortedDays pref xs) = length xs"
  "distinct (sortedDays pref xs) = distinct xs"
  by (simp_all add: sortedDays_def)

lemma distinct_DAYS: "distinct DAYS_IN_ORDER"
  by (simp add: DAYS_IN_ORDER_def)

lemma schedule_loop_facts:
  assumes "getStrengthDaysForPhase (daysPerWeek prefs) ph r \<noteq> 0"
  shows "set (map fst (scheduleStrengthForWeek ww prefs ph r)) \<subseteq> {d. canLiftOnDay d ww}"
    and "distinct (map fst (scheduleStrengthForWeek ww prefs ph r))"
    and "length (scheduleStrengthForWeek ww prefs ph r) =
           min (nat (getStrengthDaysForPhase (daysPerWeek prefs) ph r))
               (length (filter (\<lambda>d. canLiftOnDay d ww) DAYS_IN_ORDER))"
proof -
  let ?av = "filter (\<lambda>d. canLiftOnDay d ww) DAYS_IN_ORDER"
  let ?st0 = "\<lparr> allocations = [], legsScheduled = False, upperScheduled = False,
                     sessionsScheduled = 0 \<rparr>"
  let ?tgt = "getStrengthDaysForPhase (daysPerWeek prefs) ph r"
  let ?res = "allocations (allocateSessions ww ph r ?tgt (sortedDays (preferredDays prefs) ?av) ?st0)"
  have d: "distinct (sortedDays (preferredDays prefs) ?av)"
    by (simp add: sortedDays_props distinct_DAYS)
  have e: "scheduleStrengthForWeek ww prefs ph r = ?res"
    using assms by (simp add: scheduleStrengthForWeek_def Let_def)
  have f: "set (map fst ?res) \<subseteq> set (map fst (allocations ?st0)) \<union> set (sortedDays (preferredDays prefs) ?av)
      \<and> distinct (map fst ?res)
      \<and> length ?res = max (sessionsScheduled ?st0)
            (min (nat ?tgt) (sessionsScheduled ?st0 + length (sortedDays (preferredDays prefs) ?av)))"
    by (rule allocateSessions_keys[OF d]) simp_all
  from f show "set (map fst (scheduleStrengthForWeek ww prefs ph r)) \<subseteq> {d. canLiftOnDay d ww}"
    unfolding e by (auto simp: sortedDays_props)
  from f show "distinct (map fst (scheduleStrengthForWeek ww prefs ph r))"
    unfolding e by simp
  from f show "length (scheduleStrengthForWeek ww prefs ph r) =
           min (nat ?tgt) (length ?av)"
    unfolding e by (simp add: sortedDays_props)
qed

lemma schedule_keys:
  "set (map fst (scheduleStrengthForWeek ww prefs ph r)) \<subseteq> {d. canLiftOnDay d ww}"
proof (cases "getStrengthDaysForPhase (daysPerWeek prefs) ph r = 0")
  case True
  then show ?thesis by (simp add: scheduleStrengthForWeek_def)
next
  case False
  then show ?thesis by (rule schedule_loop_facts)
qed

lemma schedule_distinct: "distinct (map fst (scheduleStrengthForWeek ww prefs ph r))"
proof (cases "getStrengthDaysForPhase (daysPerWeek prefs) ph r = 0")
  case True
  then show ?thesis by (simp add: scheduleStrengthForWeek_def)
next
  case False
  then show ?thesis by (rule schedule_loop_facts)
qed

lemma schedule_length:
  "length (scheduleStrengthForWeek ww prefs ph r) =
     min (nat (getStrengthDaysForPhase (daysPerWeek prefs) ph r))
         (length (filter (\<lambda>d. canLiftOnDay d ww) DAYS_IN_ORDER))"
proof (cases "getStrengthDaysForPhase (daysPerWeek prefs) ph r = 0")
  case True
  then show ?thesis by (simp add: scheduleStrengthForWeek_def)
next
  case False
  then show ?thesis by (rule schedule_loop_facts)
qed

lemma chooseSession_lower:
  "chooseSession ww ph r d st = (ty, tim, nts, legs, upper) \<Longrightarrow>
   (ty = Lower_body \<longrightarrow> \<not> r \<and> (if ph = Peak then sessionsScheduled st = 0
                                     else \<not> legsScheduled st \<and> legs \<and> canDoHeavyLegs d ww)) \<and>
   (legsScheduled st \<longrightarrow> legs)"
  by (auto simp: chooseSession_def Let_def split: if_splits)

lemma chooseSession_upper:
  "chooseSession ww ph r d st = (ty, tim, nts, legs, upper) \<Longrightarrow>
   (ty = Upper_body \<longrightarrow> \<not> upperScheduled st \<and> upper) \<and> (upperScheduled st \<longrightarrow> upper)"
  by (auto simp: chooseSession_def Let_def split: if_splits)

lemma lowerInv_step: "lowerInv ph r st \<Longrightarrow> lowerInv ph r (allocateDay ww ph r d st)"
proof -
  assume inv: "lowerInv ph r st"
  obtain ty tim nts legs upper where c: "chooseSession ww ph r d st = (ty, tim, nts, legs, upper)"
    by (metis prod_cases5)
  let ?v = "\<lparr> alloc_day = d, alloc_type = ty, timing = tim,
                  duration = getStrengthDuration ty ph r, alloc_notes = nts \<rparr>"
  have a: "allocations (allocateDay ww ph r d st) = AList.update d ?v (allocations st)"
    and l: "legsScheduled (allocateDay ww ph r d st) = legs"
    and s: "sessionsScheduled (allocateDay ww ph r d st) = Suc (sessionsScheduled st)"
    by (simp_all add: allocateDay_def c)
  have le: "countType Lower_body (AList.update d ?v (allocations st))
              \<le> countType Lower_body (allocations st) + (if ty = Lower_body then 1 else 0)"
    using countType_update[of Lower_body d ?v "allocations st"] by simp
  show ?thesis
    unfolding lowerInv_def a l s
    using chooseSession_lower[OF c] inv le
    by (cases "ty = Lower_body") (auto simp: lowerInv_def split: if_splits)
qed

lemma lowerInv_loop:
  "lowerInv ph r st \<Longrightarrow> lowerInv ph r (allocateSessions ww ph r tgt days st)"
  by (induction days arbitrary: st) (auto intro: lowerInv_step)

lemma upperInv_step: "upperInv st \<Longrightarrow> upperInv (allocateDay ww ph r d st)"
proof -
  assume inv: "upperInv st"
  obtain ty tim nts legs upper where c: "chooseSession ww ph r d st = (ty, tim, nts, legs, upper)"
    by (metis prod_cases5)
  let ?v = "\<lparr> alloc_day = d, alloc_type = ty, timing = tim,
                  duration = getStrengthDuration ty ph r, alloc_notes = nts \<rparr>"
  have a: "allocations (allocateDay ww ph r d st) = AList.update d ?v (allocations st)"
    and u: "upperScheduled (allocateDay ww ph r d st) = upper"
    by (simp_all add: allocateDay_def c)
  have le: "countType Upper_body (AList.update d ?v (allocations st))
              \<le> countType Upper_body (allocations st) + (if ty = Upper_body then 1 else 0)"
    using countType_update[of Upper_body d ?v "allocations st"] by simp
  show ?thesis
    unfolding upperInv_def a u
    using chooseSession_upper[OF c] inv le
    by (cases "ty = Upper_body") (auto simp: upperInv_def)
qed

lemma upperInv_loop:
  "upperInv st \<Longrightarrow> upperInv (allocateSessions ww ph r tgt days st)"
  by (induction days arbitrary: st) (auto intro: upperInv_step)

lemma schedule_counts:
  "countType Lower_body (scheduleStrengthForWeek ww prefs ph r) \<le> 1 \<and>
   countType Upper_body (scheduleStrengthForWeek ww prefs ph r) \<le> 1"
proof -
  let ?st0 = "\<lparr> allocations = [], legsScheduled = False, upperScheduled = False,
                     sessionsScheduled = 0 \<rparr>"
  have "lowerInv ph r ?st0" "upperInv ?st0"
    by (simp_all add: lowerInv_def upperInv_def countType_def)
  then show ?thesis
    using lowerInv_loop[of ph r ?st0 ww] upperInv_loop[of ?st0 ww ph r]
    by (auto simp: scheduleStrengthForWeek_def Let_def lowerInv_def upperInv_def countType_def)
qed

lemma ceiling_half_rat: "\<lceil>(of_int p :: rat) / 2\<rceil> = (p + 1) div 2"
proof -
  have "\<lceil>(of_int p :: rat) / of_int 2\<rceil> = - (- p div 2)"
    by (rule ceiling_divide_eq_div)
  then show ?thesis by (simp add: algebra_simps)
qed

lemma ceiling_half_real: "\<lceil>(of_int p :: real) / 2\<rceil> = (p + 1) div 2"
proof -
  have "\<lceil>(of_int p :: real) / of_int 2\<rceil> = - (- p div 2)"
    by (rule ceiling_divide_eq_div)
  then show ?thesis by (simp add: algebra_simps)
qed

lemma target_nonneg: "0 \<le> p \<Longrightarrow> 0 \<le> getStrengthDaysForPhase p ph r"
  by (cases ph) (auto simp: getStrengthDaysForPhase_def ceiling_half_rat)

section \<open>Worked strength weeks\<close>

lemma realizedBaseWeek_sundayFirst:
  "map (\<lambda>(d, a). (d, alloc_type a))
     (scheduleStrengthForWeek realizedBaseWeek sundayFirst Base False) = [(Sunday, Lower_body)]"
  by code_simp

lemma realizedBaseWeek_threeSessions:
  "map (\<lambda>(d, a). (d, alloc_type a))
     (scheduleStrengthForWeek realizedBaseWeek threeSessions Base False)
   = [(Monday, Upper_body), (Tuesday, Lower_body), (Wednesday, Core)]"
  by code_simp

lemma longRunHeavyWeek_threeSessions:
  "map fst (scheduleStrengthForWeek longRunHeavyWeek threeSessions Base False)
     = [Saturday, Sunday]"
  by code_simp

lemma longRunHeavyWeek_eligible:
  "filter (\<lambda>d. canLiftOnDay d longRunHeavyWeek) DAYS_IN_ORDER = [Saturday, Sunday]"
  by code_simp

section \<open>Properties of the strength scheduler\<close>

text \<open>
  C3 (48-hour rule). The claim says that \<open>canDoHeavyLegs\<close> is false whenever the previous
  day, the next day or the day after next holds a speed run, so that no lower-body session
  has a speed run two days later. The code reads the day after next and never tests it.
  In the base week (tempo on Tuesday) with Sunday as the preferred strength day, Tuesday is
  the day after next of Sunday, \<open>canDoHeavyLegs\<close> still holds on Sunday, and the scheduler
  puts the lower-body session on Sunday.
\<close>

theorem canDoHeavyLegs_ignores_day_after_next:
  "realizedBaseWeek (getNextDay (getNextDay Sunday)) = Some Tempo
   \<and> isSpeedWorkout Tempo
   \<and> canDoHeavyLegs Sunday realizedBaseWeek
   \<and> map (\<lambda>(d, a). (d, alloc_type a))
        (scheduleStrengthForWeek realizedBaseWeek sundayFirst Base False)
       = [(Sunday, Lower_body)]"
proof -
  have "realizedBaseWeek (getNextDay (getNextDay Sunday)) = Some Tempo"
    by (simp add: getNextDay_simps realizedBaseWeek_def)
  moreover have "isSpeedWorkout Tempo"
    by (simp add: isSpeedWorkout_def)
  moreover have "canDoHeavyLegs Sunday realizedBaseWeek"
    by (simp add: canDoHeavyLegs_def Let_def getNextDay_simps getPreviousDay_simps
        realizedBaseWeek_def truthyAnd_def isSpeedWorkout_def isLongRun_def)
  ultimately show ?thesis
    using realizedBaseWeek_sundayFirst by simp
qed

text \<open>
  C5 (no strength before a long run). \<open>canLiftOnDay d\<close> is false exactly when the day
  after \<open>d\<close> in the weekday cycle holds a long or a progression run, and every day that
  \<open>scheduleStrengthForWeek\<close> gives a session is followed by a day without such a run.
\<close>

theorem canLiftOnDay_no_strength_before_long_run:
  "(canLiftOnDay d weekWorkouts \<longleftrightarrow>
      weekWorkouts (getNextDay d) \<notin> {Some Long, Some Progression})
   \<and> (\<forall>(day, a) \<in> set (scheduleStrengthForWeek weekWorkouts preferences phase isRecoveryWeek).
         weekWorkouts (getNextDay day) \<notin> {Some Long, Some Progression})"
proof
  show "canLiftOnDay d weekWorkouts \<longleftrightarrow>
      weekWorkouts (getNextDay d) \<notin> {Some Long, Some Progression}"
    by (rule canLiftOnDay_iff)
next
  show "\<forall>(day, a) \<in> set (scheduleStrengthForWeek weekWorkouts preferences phase isRecoveryWeek).
         weekWorkouts (getNextDay day) \<notin> {Some Long, Some Progression}"
  proof (clarify)
    fix day a
    assume m: "(day, a) \<in> set (scheduleStrengthForWeek weekWorkouts preferences phase isRecoveryWeek)"
      and n: "weekWorkouts (getNextDay day) \<in> {Some Long, Some Progression}"
    from m have "day \<in> set (map fst (scheduleStrengthForWeek weekWorkouts preferences phase isRecoveryWeek))"
      by force
    with schedule_keys have "canLiftOnDay day weekWorkouts" by blast
    with n show False by (simp add: canLiftOnDay_iff)
  qed
qed

theorem canLiftOnDay_no_strength_before_long_run_witness:
  "\<not> canLiftOnDay Saturday realizedBaseWeek
   \<and> realizedBaseWeek (getNextDay Saturday) = Some Long
   \<and> map fst (scheduleStrengthForWeek realizedBaseWeek threeSessions Base False)
       = [Monday, Tuesday, Wednesday]
   \<and> list_all (\<lambda>day. realizedBaseWeek (getNextDay day) \<notin> {Some Long, Some Progression})
        (map fst (scheduleStrengthForWeek realizedBaseWeek threeSessions Base False))"
proof -
  have n: "realizedBaseWeek (getNextDay Saturday) = Some Long"
    by (simp add: getNextDay_simps realizedBaseWeek_def)
  have k: "map fst (scheduleStrengthForWeek realizedBaseWeek threeSessions Base False)
       = [Monday, Tuesday, Wednesday]"
    using arg_cong[OF realizedBaseWeek_threeSessions, of "map fst"]
    by (simp add: comp_def case_prod_unfold)
  note t = canLiftOnDay_no_strength_before_long_run
             [of Saturday realizedBaseWeek threeSessions Base False]
  from t n have a: "\<not> canLiftOnDay Saturday realizedBaseWeek" by simp
  from t have b: "list_all (\<lambda>day. realizedBaseWeek (getNextDay day) \<notin> {Some Long, Some Progression})
        (map fst (scheduleStrengthForWeek realizedBaseWeek threeSessions Base False))"
    unfolding list_all_iff by force
  from a n k b show ?thesis by blast
qed

text \<open>
  C6 (target count). The weekly strength target is 1 on a recovery week; otherwise it is
  the preferred count in the base phase, \<open>max 1 (preferred - 1)\<close> in the build phase,
  \<open>min 2 \<lceil>preferred / 2\<rceil>\<close> in the peak phase, and 0 in the taper and race phases.
\<close>

theorem getStrengthDaysForPhase_table:
  "getStrengthDaysForPhase preferred phase True = 1
   \<and> getStrengthDaysForPhase preferred Base False = preferred
   \<and> getStrengthDaysForPhase preferred Build False = max 1 (preferred - 1)
   \<and> getStrengthDaysForPhase preferred Peak False = min 2 \<lceil>real_of_int preferred / 2\<rceil>
   \<and> getStrengthDaysForPhase preferred Taper False = 0
   \<and> getStrengthDaysForPhase preferred Race False = 0"
  by (simp add: getStrengthDaysForPhase_def ceiling_half_rat ceiling_half_real)

text \<open>
  C7 (silent under-allocation). \<open>scheduleStrengthForWeek\<close> is a total function with no
  failing branch; it returns at most one allocation per day, and their number is the smaller
  of the target count and the number of weekdays that pass \<open>canLiftOnDay\<close>. The first
  conjunct reads the target as a natural number (a negative target schedules nothing); the
  last states the claim's formula for every preferred count that is not negative.
\<close>

theorem scheduleStrengthForWeek_count:
  "length (scheduleStrengthForWeek weekWorkouts preferences phase isRecoveryWeek)
     = min (nat (getStrengthDaysForPhase (daysPerWeek preferences) phase isRecoveryWeek))
           (length (filter (\<lambda>d. canLiftOnDay d weekWorkouts) DAYS_IN_ORDER))
   \<and> distinct (map fst (scheduleStrengthForWeek weekWorkouts preferences phase isRecoveryWeek))
   \<and> (0 \<le> daysPerWeek preferences \<longrightarrow>
        int (length (scheduleStrengthForWeek weekWorkouts preferences phase isRecoveryWeek))
          = min (getStrengthDaysForPhase (daysPerWeek preferences) phase isRecoveryWeek)
                (int (length (filter (\<lambda>d. canLiftOnDay d weekWorkouts) DAYS_IN_ORDER))))"
  using schedule_length[of weekWorkouts preferences phase isRecoveryWeek]
        schedule_distinct[of weekWorkouts preferences phase isRecoveryWeek]
        target_nonneg[of "daysPerWeek preferences" phase isRecoveryWeek]
  by auto

theorem scheduleStrengthForWeek_count_witness:
  "0 \<le> daysPerWeek threeSessions
   \<and> getStrengthDaysForPhase (daysPerWeek threeSessions) Base False = 3
   \<and> length (filter (\<lambda>d. canLiftOnDay d longRunHeavyWeek) DAYS_IN_ORDER) = 2
   \<and> length (scheduleStrengthForWeek longRunHeavyWeek threeSessions Base False) = 2"
proof -
  have a: "0 \<le> daysPerWeek threeSessions"
    and b: "getStrengthDaysForPhase (daysPerWeek threeSessions) Base False = 3"
    by (simp_all add: threeSessions_def getStrengthDaysForPhase_def)
  have c: "length (filter (\<lambda>d. canLiftOnDay d longRunHeavyWeek) DAYS_IN_ORDER) = 2"
    by (simp add: longRunHeavyWeek_eligible)
  from scheduleStrengthForWeek_count[of longRunHeavyWeek threeSessions Base False] a b c
  show ?thesis by simp
qed

text \<open>
  C10 (one leg day, one upper-body day). The allocation map holds at most one lower-body
  session, and outside recovery weeks and the peak phase at most one upper-body session.
\<close>

theorem scheduleStrengthForWeek_type_counts:
  "countType Lower_body (scheduleStrengthForWeek weekWorkouts preferences phase isRecoveryWeek) \<le> 1
   \<and> (\<not> isRecoveryWeek \<and> phase \<noteq> Peak \<longrightarrow>
        countType Upper_body
          (scheduleStrengthForWeek weekWorkouts preferences phase isRecoveryWeek) \<le> 1)"
  using schedule_counts[of weekWorkouts preferences phase isRecoveryWeek] by blast

theorem scheduleStrengthForWeek_type_counts_witness:
  "(\<not> False \<and> Base \<noteq> Peak)
   \<and> map (\<lambda>(d, a). (d, alloc_type a))
        (scheduleStrengthForWeek realizedBaseWeek threeSessions Base False)
       = [(Monday, Upper_body), (Tuesday, Lower_body), (Wednesday, Core)]
   \<and> countType Lower_body (scheduleStrengthForWeek realizedBaseWeek threeSessions Base False) \<le> 1
   \<and> countType Upper_body (scheduleStrengthForWeek realizedBaseWeek threeSessions Base False) \<le> 1"
proof -
  have h: "\<not> False \<and> Base \<noteq> Peak" by simp
  from scheduleStrengthForWeek_type_counts[of realizedBaseWeek threeSessions Base False] h
  have "countType Lower_body (scheduleStrengthForWeek realizedBaseWeek threeSessions Base False) \<le> 1"
    and "countType Upper_body (scheduleStrengthForWeek realizedBaseWeek threeSessions Base False) \<le> 1"
    by blast+
  with h realizedBaseWeek_threeSessions show ?thesis by blast
qed

section \<open>Properties of the blocked-range resolver\<close>

lemma scanBlockedDates_find:
  "scanBlockedDates date ranges =
     (case find (\<lambda>rng. containsDate rng date) ranges of
        None \<Rightarrow> \<lparr> blocked = False, reason = None \<rparr>
      | Some rng \<Rightarrow> \<lparr> blocked = True, reason = range_reason rng \<rparr>)"
  by (induction ranges) (simp_all add: containsDate_def)

lemma find_first_index:
  "i < length xs \<Longrightarrow> P (xs ! i) \<Longrightarrow> (\<forall>j < i. \<not> P (xs ! j)) \<Longrightarrow> find P xs = Some (xs ! i)"
proof (induction xs arbitrary: i)
  case Nil
  then show ?case by simp
next
  case (Cons x xs)
  show ?case
  proof (cases i)
    case 0
    with Cons.prems show ?thesis by simp
  next
    case (Suc k)
    with Cons.prems have "\<not> P x" by auto
    moreover have "find P xs = Some (xs ! k)"
      using Cons.prems Suc by (intro Cons.IH) auto
    ultimately show ?thesis using Suc by simp
  qed
qed

lemma valid_feb18: "isValidISODate ''2026-02-18''"
  by (simp add: isValidISODate_def isDigit_def daysInMonth_def isLeapYear_def)

lemma valid_feb14: "isValidISODate ''2026-02-14''"
  by (simp add: isValidISODate_def isDigit_def daysInMonth_def isLeapYear_def)

lemma overlapping_contains: "containsDate (overlappingRanges ! 1) ''2026-02-18''"
  "\<not> containsDate (overlappingRanges ! 0) ''2026-02-18''"
  "containsDate (overlappingRanges ! 2) ''2026-02-18''"
  "list_all (\<lambda>rng. \<not> containsDate rng ''2026-02-14'') overlappingRanges"
  by (simp_all add: containsDate_def overlappingRanges_def less_eq_char_def less_char_def)

text \<open>
  C8 (first match wins). For a valid ISO date, \<open>isDateBlocked\<close> answers with
  \<open>blocked = true\<close> and the reason of the first range, in list order, that contains the
  date, and with \<open>blocked = false\<close> when no range contains it.
\<close>

theorem isDateBlocked_first_match:
  assumes "isValidISODate date"
  shows "(\<forall>i < length blockedDates.
            containsDate (blockedDates ! i) date
            \<and> (\<forall>j < i. \<not> containsDate (blockedDates ! j) date)
            \<longrightarrow> isDateBlocked date blockedDates
                  = Some \<lparr> blocked = True, reason = range_reason (blockedDates ! i) \<rparr>)
       \<and> ((\<forall>rng \<in> set blockedDates. \<not> containsDate rng date)
            \<longrightarrow> isDateBlocked date blockedDates = Some \<lparr> blocked = False, reason = None \<rparr>)"
proof (intro conjI allI impI)
  fix i
  assume "i < length blockedDates"
    and "containsDate (blockedDates ! i) date \<and> (\<forall>j < i. \<not> containsDate (blockedDates ! j) date)"
  then have "find (\<lambda>rng. containsDate rng date) blockedDates = Some (blockedDates ! i)"
    by (intro find_first_index) auto
  with assms show "isDateBlocked date blockedDates
                  = Some \<lparr> blocked = True, reason = range_reason (blockedDates ! i) \<rparr>"
    by (simp add: isDateBlocked_def toISODateString_def scanBlockedDates_find)
next
  assume "\<forall>rng \<in> set blockedDates. \<not> containsDate rng date"
  then have "find (\<lambda>rng. containsDate rng date) blockedDates = None"
    by (simp add: find_None_iff)
  with assms show "isDateBlocked date blockedDates = Some \<lparr> blocked = False, reason = None \<rparr>"
    by (simp add: isDateBlocked_def toISODateString_def scanBlockedDates_find)
qed

theorem isDateBlocked_first_match_witness:
  "isValidISODate ''2026-02-18''
   \<and> 1 < length overlappingRanges
   \<and> containsDate (overlappingRanges ! 1) ''2026-02-18''
   \<and> \<not> containsDate (overlappingRanges ! 0) ''2026-02-18''
   \<and> containsDate (overlappingRanges ! 2) ''2026-02-18''
   \<and> isDateBlocked ''2026-02-18'' overlappingRanges
       = Some \<lparr> blocked = True, reason = Some ''Work travel'' \<rparr>
   \<and> isValidISODate ''2026-02-14''
   \<and> list_all (\<lambda>rng. \<not> containsDate rng ''2026-02-14'') overlappingRanges
   \<and> isDateBlocked ''2026-02-14'' overlappingRanges = Some \<lparr> blocked = False, reason = None \<rparr>"
proof -
  have l: "1 < length overlappingRanges"
    and r: "range_reason (overlappingRanges ! 1) = Some ''Work travel''"
    by (simp_all add: overlappingRanges_def)
  have f: "\<forall>j < 1. \<not> containsDate (overlappingRanges ! j) ''2026-02-18''"
    using overlapping_contains(2) by simp
  from isDateBlocked_first_match[OF valid_feb18, of overlappingRanges] l overlapping_contains(1) f r
  have a: "isDateBlocked ''2026-02-18'' overlappingRanges
       = Some \<lparr> blocked = True, reason = Some ''Work travel'' \<rparr>"
    by metis
  from overlapping_contains(4) have n: "\<forall>rng \<in> set overlappingRanges. \<not> containsDate rng ''2026-02-14''"
    by (simp add: list_all_iff)
  from isDateBlocked_first_match[OF valid_feb14, of overlappingRanges] n
  have b: "isDateBlocked ''2026-02-14'' overlappingRanges = Some \<lparr> blocked = False, reason = None \<rparr>"
    by blast
  from valid_feb18 l overlapping_contains a valid_feb14 b show ?thesis by blast
qed

section \<open>The string order on ISO dates\<close>

lemma isDigit_cases:
  "isDigit c \<Longrightarrow> c = CHR ''0'' \<or> c = CHR ''1'' \<or> c = CHR ''2'' \<or> c = CHR ''3'' \<or> c = CHR ''4''
     \<or> c = CHR ''5'' \<or> c = CHR ''6'' \<or> c = CHR ''7'' \<or> c = CHR ''8'' \<or> c = CHR ''9''"
  by (simp add: isDigit_def)

lemma digit_code: "isDigit c \<Longrightarrow> (of_char c :: nat) = 48 + digitOf c"
  by (drule isDigit_cases, elim disjE) (simp_all add: digitOf_def)

lemma digitOf_less_10: "isDigit c \<Longrightarrow> digitOf c < 10"
  by (drule isDigit_cases, elim disjE) (simp_all add: digitOf_def)

lemma digit_less_iff: "isDigit c \<Longrightarrow> isDigit c' \<Longrightarrow> c < c' \<longleftrightarrow> digitOf c < digitOf c'"
  by (simp add: less_char_def digit_code)

lemma digit_eq_iff: "isDigit c \<Longrightarrow> isDigit c' \<Longrightarrow> c = c' \<longleftrightarrow> digitOf c = digitOf c'"
proof -
  assume a: "isDigit c" "isDigit c'"
  have "c = c' \<longleftrightarrow> (of_char c :: nat) = of_char c'" by simp
  also have "\<dots> \<longleftrightarrow> digitOf c = digitOf c'" using a by (simp add: digit_code)
  finally show ?thesis .
qed

lemma digitsValue_step: "digitsValue acc (c # cs) = digitsValue (acc * 10 + digitOf c) cs"
  by (simp add: digitOf_def)

lemma digitsValue_acc:
  "digitsValue acc cs = acc * 10 ^ length cs + digitsValue 0 cs"
proof (induction cs arbitrary: acc)
  case Nil
  then show ?case by simp
next
  case (Cons c cs)
  have a: "digitsValue acc (c # cs) = (acc * 10 + digitOf c) * 10 ^ length cs + digitsValue 0 cs"
    unfolding digitsValue_step by (rule Cons.IH)
  have b: "digitsValue 0 (c # cs) = (0 * 10 + digitOf c) * 10 ^ length cs + digitsValue 0 cs"
    unfolding digitsValue_step by (rule Cons.IH)
  show ?case unfolding a b by (simp add: algebra_simps)
qed

lemma digitsValue_Cons:
  "digitsValue 0 (c # cs) = digitOf c * 10 ^ length cs + digitsValue 0 cs"
  unfolding digitsValue_step using digitsValue_acc[of "0 * 10 + digitOf c" cs] by simp

lemma digitsValue_bound: "list_all isDigit cs \<Longrightarrow> digitsValue 0 cs < 10 ^ length cs"
proof (induction cs)
  case Nil
  then show ?case by simp
next
  case (Cons c cs)
  then have d: "digitOf c \<le> 9" and b: "digitsValue 0 cs < 10 ^ length cs"
    using digitOf_less_10[of c] by auto
  have "digitOf c * 10 ^ length cs \<le> 9 * 10 ^ length cs"
    using d by (rule mult_le_mono1)
  with b have "digitOf c * 10 ^ length cs + digitsValue 0 cs < 10 * 10 ^ length cs"
    by linarith
  then show ?case unfolding digitsValue_Cons by simp
qed

text \<open>Equal-length digit strings: the string order is the order of the numbers.\<close>

lemma digits_order:
  "length xs = length ys \<Longrightarrow> list_all isDigit xs \<Longrightarrow> list_all isDigit ys \<Longrightarrow>
   (xs \<le> ys \<longleftrightarrow> digitsValue 0 xs \<le> digitsValue 0 ys) \<and>
   (xs = ys \<longleftrightarrow> digitsValue 0 xs = digitsValue 0 ys)"
proof (induction xs ys rule: list_induct2)
  case Nil
  then show ?case by simp
next
  case (Cons x xs y ys)
  define n :: nat where "n = 10 ^ length xs"
  define vx where "vx = digitsValue 0 xs"
  define vy where "vy = digitsValue 0 ys"
  from Cons.prems have dx: "isDigit x" and dy: "isDigit y"
    and ax: "list_all isDigit xs" and ay: "list_all isDigit ys" by simp_all
  have ih: "(xs \<le> ys \<longleftrightarrow> vx \<le> vy) \<and> (xs = ys \<longleftrightarrow> vx = vy)"
    unfolding vx_def vy_def by (rule Cons.IH[OF ax ay])
  have bx: "vx < n" unfolding vx_def n_def by (rule digitsValue_bound[OF ax])
  have by': "vy < n" unfolding vy_def n_def using digitsValue_bound[OF ay] Cons.hyps by simp
  have ex: "digitsValue 0 (x # xs) = digitOf x * n + vx"
    unfolding vx_def n_def by (rule digitsValue_Cons)
  have ey: "digitsValue 0 (y # ys) = digitOf y * n + vy"
    unfolding vy_def n_def using digitsValue_Cons[of y ys] Cons.hyps by simp
  have le: "x # xs \<le> y # ys \<longleftrightarrow> x < y \<or> (x = y \<and> xs \<le> ys)" by simp
  have eq: "x # xs = y # ys \<longleftrightarrow> x = y \<and> xs = ys" by simp
  consider (lt) "digitOf x < digitOf y" | (same) "digitOf x = digitOf y" | (gt) "digitOf y < digitOf x"
    by linarith
  then show ?case
  proof cases
    case lt
    then have "Suc (digitOf x) * n \<le> digitOf y * n" by (intro mult_le_mono1) simp
    with bx have "digitOf x * n + vx < digitOf y * n + vy" by simp
    moreover from lt have "x < y" "x \<noteq> y"
      using digit_less_iff[OF dx dy] digit_eq_iff[OF dx dy] by simp_all
    ultimately show ?thesis unfolding le eq ex ey by simp
  next
    case same
    then have "x = y" using digit_eq_iff[OF dx dy] by simp
    with ih same show ?thesis unfolding le eq ex ey by simp
  next
    case gt
    then have "Suc (digitOf y) * n \<le> digitOf x * n" by (intro mult_le_mono1) simp
    with by' have "digitOf y * n + vy < digitOf x * n + vx" by simp
    moreover from gt have "\<not> x < y" "x \<noteq> y"
      using digit_less_iff[OF dx dy] digit_eq_iff[OF dx dy] by simp_all
    ultimately show ?thesis unfolding le eq ex ey by simp
  qed
qed


lemma append_le_append:
  "length a = length a' \<Longrightarrow>
   (a @ r \<le> a' @ r' \<longleftrightarrow> a < a' \<or> (a = a' \<and> r \<le> r'))" for a :: "char list"
proof (induction a a' rule: list_induct2)
  case Nil
  then show ?case by simp
next
  case (Cons x xs y ys)
  then show ?case by auto
qed

lemma iso_date_parts:
  assumes "length s = 10" "s ! 4 = CHR ''-''" "s ! 7 = CHR ''-''"
  shows "s = take 4 s @ CHR ''-'' # take 2 (drop 5 s) @ CHR ''-'' # drop 8 s"
proof -
  have a: "drop 4 s = s ! 4 # drop 5 s"
    using assms(1) Cons_nth_drop_Suc[of 4 s] by simp
  have b: "drop 7 s = s ! 7 # drop 8 s"
    using assms(1) Cons_nth_drop_Suc[of 7 s] by simp
  have c: "drop 5 s = take 2 (drop 5 s) @ drop 7 s"
    using append_take_drop_id[of 2 "drop 5 s"] by simp
  have "s = take 4 s @ drop 4 s" by simp
  also have "drop 4 s = CHR ''-'' # take 2 (drop 5 s) @ CHR ''-'' # drop 8 s"
    unfolding a assms(2) using c b assms(3) by simp
  finally show ?thesis .
qed

text \<open>On valid ISO dates the string order is the order of the calendar: it compares the
  numbers \<open>yyyymmdd\<close>.\<close>

lemma iso_date_order:
  assumes "isValidISODate s" "isValidISODate t"
  shows "s \<le> t \<longleftrightarrow> dateNumber s \<le> dateNumber t"
proof -
  define a b c where "a = take 4 s" and "b = take 2 (drop 5 s)" and "c = drop 8 s"
  define a' b' c' where "a' = take 4 t" and "b' = take 2 (drop 5 t)" and "c' = drop 8 t"
  from assms have ls: "length s = 10" and lt: "length t = 10"
    and ds: "list_all isDigit (a @ b @ c)" and dt: "list_all isDigit (a' @ b' @ c')"
    and s4: "s ! 4 = CHR ''-''" "s ! 7 = CHR ''-''"
    and t4: "t ! 4 = CHR ''-''" "t ! 7 = CHR ''-''"
    by (simp_all add: isValidISODate_def a_def b_def c_def a'_def b'_def c'_def)
  have la: "length a = length a'" and lb: "length b = length b'" and lc: "length c = length c'"
    using ls lt by (simp_all add: a_def b_def c_def a'_def b'_def c'_def)
  have es: "s = a @ CHR ''-'' # b @ CHR ''-'' # c"
    unfolding a_def b_def c_def by (rule iso_date_parts[OF ls s4])
  have et: "t = a' @ CHR ''-'' # b' @ CHR ''-'' # c'"
    unfolding a'_def b'_def c'_def by (rule iso_date_parts[OF lt t4])
  have "s \<le> t \<longleftrightarrow> a < a' \<or> (a = a' \<and> (b < b' \<or> (b = b' \<and> c \<le> c')))"
    unfolding es et
    using append_le_append[OF la, of "CHR ''-'' # b @ CHR ''-'' # c" "CHR ''-'' # b' @ CHR ''-'' # c'"]
          append_le_append[OF lb, of "CHR ''-'' # c" "CHR ''-'' # c'"]
    by simp
  also have "\<dots> \<longleftrightarrow> a @ b @ c \<le> a' @ b' @ c'"
    using append_le_append[OF la, of "b @ c" "b' @ c'"] append_le_append[OF lb, of c c']
    by simp
  also have "\<dots> \<longleftrightarrow> digitsValue 0 (a @ b @ c) \<le> digitsValue 0 (a' @ b' @ c')"
    using digits_order[OF _ ds dt] la lb lc by simp
  finally show ?thesis
    by (simp add: dateNumber_def a_def b_def c_def a'_def b'_def c'_def)
qed

lemma containsDate_calendar:
  assumes "isValidISODate (range_start rng)" "isValidISODate (range_end rng)" "isValidISODate date"
  shows "containsDate rng date \<longleftrightarrow>
           dateNumber (range_start rng) \<le> dateNumber date
           \<and> dateNumber date \<le> dateNumber (range_end rng)"
  unfolding containsDate_def
  using iso_date_order[OF assms(1) assms(3)] iso_date_order[OF assms(3) assms(2)] by simp

lemma dateNumber_example: "dateNumber ''2026-02-18'' = 20260218"
  by (simp add: dateNumber_def)

section \<open>Properties of the rounding to a double\<close>

lemma roundHalfEven_of_int [simp]: "roundHalfEven (of_int k) = k"
  by (simp add: roundHalfEven_def)



lemma exponent_unique:
  fixes a :: rat
  assumes "2 powi e \<le> a" "a < 2 powi (e + 1)" "2 powi e' \<le> a" "a < 2 powi (e' + 1)"
  shows "e = e'"
proof (rule ccontr)
  assume "e \<noteq> e'"
  then consider "e + 1 \<le> e'" | "e' + 1 \<le> e" by linarith
  then show False
  proof cases
    case 1
    then have "(2::rat) powi (e + 1) \<le> 2 powi e'" by (intro power_int_increasing) simp_all
    with assms show False by linarith
  next
    case 2
    then have "(2::rat) powi (e' + 1) \<le> 2 powi e" by (intro power_int_increasing) simp_all
    with assms show False by linarith
  qed
qed

lemma set_exponentRange: "set exponentRange = {- 1022 .. 1023}"
  unfolding exponentRange_def by (rule set_upto)

lemma binaryExponent_eq:
  assumes "- 1022 \<le> e" "e \<le> 1023" "2 powi e \<le> a" "a < 2 powi (e + 1)"
  shows "binaryExponent a = e"
proof (cases "List.find (\<lambda>e. 2 powi e \<le> a \<and> a < 2 powi (e + 1)) exponentRange")
  case None
  note None[unfolded find_None_iff]
  with assms have False by (auto simp: set_exponentRange)
  then show ?thesis ..
next
  case (Some e')
  then have "2 powi e' \<le> a \<and> a < 2 powi (e' + 1)" by (auto simp: find_Some_iff)
  with assms have "e = e'" by (auto intro: exponent_unique)
  with Some show ?thesis by (simp add: binaryExponent_def)
qed

lemma binaryExponent_small:
  assumes "a < 2 powi (- 1022)"
  shows "binaryExponent a = - 1022"
proof (cases "List.find (\<lambda>e. 2 powi e \<le> a \<and> a < 2 powi (e + 1)) exponentRange")
  case None
  then show ?thesis by (simp add: binaryExponent_def)
next
  case (Some e')
  then have p: "2 powi e' \<le> a" and m: "e' \<in> set exponentRange"
    by (auto simp: find_Some_iff)
  from m have "- 1022 \<le> e'" by (simp add: set_exponentRange)
  then have "(2::rat) powi (- 1022) \<le> 2 powi e'" by (intro power_int_increasing) simp_all
  with p assms show ?thesis by linarith
qed



lemma roundMagnitude_eq:
  assumes "- 1022 \<le> e" "e \<le> 1023" "2 powi e \<le> a" "a < 2 powi (e + 1)"
  shows "roundMagnitude a = of_int (roundHalfEven (a / 2 powi (e - 52))) * 2 powi (e - 52)"
  unfolding roundMagnitude_def Let_def binaryExponent_eq[OF assms] by (rule refl)

lemma roundMagnitude_small:
  assumes "a < 2 powi (- 1022)" and "q = - 1074"
  shows "roundMagnitude a = of_int (roundHalfEven (a / 2 powi q)) * 2 powi q"
proof -
  have "binaryExponent a - 52 = q" unfolding binaryExponent_small[OF assms(1)] assms(2) by simp
  then show ?thesis unfolding roundMagnitude_def Let_def by simp
qed


lemma two_powi_split: "(2::rat) powi (q + k) = 2 powi q * 2 powi k"
  by (simp add: power_int_add)


lemma scale_lower: "(2::rat) powi k \<le> x \<Longrightarrow> 2 powi (q + k) \<le> x * 2 powi q"
proof -
  assume "(2::rat) powi k \<le> x"
  then have "2 powi k * 2 powi q \<le> x * 2 powi q" by (rule mult_right_mono) simp
  then show ?thesis by (simp only: two_powi_split mult.commute)
qed

lemma scale_upper: "x < (2::rat) powi k \<Longrightarrow> x * 2 powi q < 2 powi (q + k)"
proof -
  assume "x < (2::rat) powi k"
  then have "x * 2 powi q < 2 powi k * 2 powi q" by (rule mult_strict_right_mono) simp
  then show ?thesis by (simp only: two_powi_split mult.commute)
qed







lemma overflow_threshold: "(2::rat) ^ 1024 = 2 powi 1024"
  by (simp only: power_int_numeral)


lemma representable_bound:
  assumes "representable a"
  shows "a < 2 ^ 1024"
proof -
  from assms obtain r q where a: "a = of_int r * 2 powi q"
    and c: "q = - 1074 \<and> of_int r < (2::rat) powi 52
            \<or> - 1074 \<le> q \<and> q \<le> 971 \<and> (2::rat) powi 52 \<le> of_int r
                \<and> of_int r < (2::rat) powi 53"
    unfolding representable_def by blast
  have "(2::rat) powi 52 \<le> 2 powi 53" by (intro power_int_increasing) simp_all
  with c have r: "of_int r < (2::rat) powi 53" and q: "q + 53 \<le> 1024" by auto
  from r have "a < 2 powi (q + 53)" unfolding a by (rule scale_upper)
  also from q have "(2::rat) powi (q + 53) \<le> 2 powi 1024" by (intro power_int_increasing) simp_all
  finally show ?thesis by (simp only: overflow_threshold)
qed

lemma roundMagnitude_representable:
  assumes "representable a"
  shows "roundMagnitude a = a"
proof -
  from assms obtain r q where a: "a = of_int r * 2 powi q"
    and c: "q = - 1074 \<and> of_int r < (2::rat) powi 52
            \<or> - 1074 \<le> q \<and> q \<le> 971 \<and> (2::rat) powi 52 \<le> of_int r
                \<and> of_int r < (2::rat) powi 53"
    unfolding representable_def by blast
  have m: "a / 2 powi q = of_int r" unfolding a by simp
  have fin: "of_int (roundHalfEven (a / 2 powi q)) * 2 powi q = a"
    unfolding a by simp
  from c show ?thesis
  proof
    assume s: "q = - 1074 \<and> of_int r < (2::rat) powi 52"
    then have "a < 2 powi (q + 52)" unfolding a by (intro scale_upper) simp
    moreover from s have "q + 52 = - 1022" by simp
    ultimately have "a < 2 powi (- 1022)" by (simp only:)
    from roundMagnitude_small[OF this, of q] s fin show ?thesis by (simp only:)
  next
    assume n: "- 1074 \<le> q \<and> q \<le> 971 \<and> (2::rat) powi 52 \<le> of_int r
                \<and> of_int r < (2::rat) powi 53"
    then have l: "2 powi (q + 52) \<le> a" unfolding a by (intro scale_lower) simp
    from n have "a < 2 powi (q + 53)" unfolding a by (intro scale_upper) simp
    moreover have "q + 53 = q + 52 + 1" by simp
    ultimately have h: "a < 2 powi (q + 52 + 1)" by (simp only:)
    from n have "- 1022 \<le> q + 52" "q + 52 \<le> 1023" by simp_all
    from roundMagnitude_eq[OF this l h] have
      "roundMagnitude a = of_int (roundHalfEven (a / 2 powi (q + 52 - 52))) * 2 powi (q + 52 - 52)" .
    moreover have "q + 52 - 52 = q" by simp
    ultimately show ?thesis using fin by (simp only:)
  qed
qed


lemma toNumber_representable:
  assumes "representable \<bar>y\<bar>"
  shows "toNumber y = Finite y"
proof -
  have r: "roundMagnitude \<bar>y\<bar> = \<bar>y\<bar>" using assms by (rule roundMagnitude_representable)
  have b: "\<not> (2 ^ 1024 \<le> \<bar>y\<bar> \<or> 2 ^ 1024 \<le> \<bar>y\<bar>)"
    using representable_bound[OF assms] by (simp only: not_le disj_absorb)
  have "(if 0 \<le> y then \<bar>y\<bar> else - \<bar>y\<bar>) = y" by simp
  then show ?thesis unfolding toNumber_def Let_def r using b by (simp only: if_False)
qed

lemma toNumber_cases:
  "toNumber x = PlusInfinity \<or> toNumber x = MinusInfinity
   \<or> (\<bar>x\<bar> < 2 ^ 1024 \<and> roundMagnitude \<bar>x\<bar> < 2 ^ 1024
      \<and> toNumber x = Finite (if 0 \<le> x then roundMagnitude \<bar>x\<bar> else - roundMagnitude \<bar>x\<bar>))"
  unfolding toNumber_def Let_def
  by (cases "2 ^ 1024 \<le> \<bar>x\<bar> \<or> 2 ^ 1024 \<le> roundMagnitude \<bar>x\<bar>") (simp_all only: if_True if_False not_le de_Morgan_disj simp_thms split: if_splits)



lemma toNumber_not_NaN [simp]: "toNumber x \<noteq> NaN"
  using toNumber_cases[of x] by auto

lemma representable_0: "representable 0"
  unfolding representable_def by (intro exI[of _ 0] exI[of _ "- 1074"]) simp

lemma toNumber_0 [simp]: "toNumber 0 = Finite 0"
  by (rule toNumber_representable) (simp add: representable_0)

























section \<open>The running schedule: which days hold a workout\<close>

lemma scheduleDays_Nil [simp]: "scheduleDays [] = {}"
  by (simp add: scheduleDays_def)

lemma keys_update [simp]: "scheduleDays (AList.update k v al) = insert k (scheduleDays al)"
  unfolding scheduleDays_def using dom_update[of k v al] by auto

lemma scheduleDays_Cons [simp]: "scheduleDays ((k, v) # al) = insert k (scheduleDays al)"
  by (simp add: scheduleDays_def)

lemma distinct_keys_update: "distinct (map fst al) \<Longrightarrow> distinct (map fst (AList.update k v al))"
  by (rule distinct_update)

lemma scheduleHas_days: "scheduleHas s d \<longleftrightarrow> d \<in> scheduleDays s"
  by (simp add: scheduleHas_def scheduleDays_def)

lemma scheduleHas_iff: "scheduleHas s d \<longleftrightarrow> map_of s d \<noteq> None"
  by (simp add: scheduleHas_def map_of_eq_None_iff)

lemma map_of_update: "map_of (AList.update k v al) d = (if d = k then Some v else map_of al d)"
  by (simp add: update_conv)

lemma qualityLoop_keys:
  "qualityLoop blk pz ph r lv qs s = Some s' \<Longrightarrow>
   scheduleDays s' = scheduleDays s \<union> q_day ` set qs \<and>
   (distinct (map fst s) \<longrightarrow> distinct (map fst s'))"
proof (induction qs arbitrary: s)
  case Nil
  then show ?case by simp
next
  case (Cons q qs)
  from Cons.prems obtain b where b: "blk (q_day q) = Some b"
    by (cases "blk (q_day q)") simp_all
  define v where "v = (if blocked b
      then createEasyRun (getDefaultEasyDistance lv ph - 1) pz
             (''Easy Run (adjusted: '' @ reasonText (reason b) @ '')'')
      else generateWorkout (q_type q) (q_distance q) ph r pz lv)"
  from Cons.prems b have "qualityLoop blk pz ph r lv qs (AList.update (q_day q) v s) = Some s'"
    by (simp add: v_def split: if_splits)
  from Cons.IH[OF this] show ?case
    by (simp add: distinct_keys_update)
qed

lemma easyLoop_keys:
  "easyLoop blk pz ph lv ds s = Some s' \<Longrightarrow>
   scheduleDays s' = scheduleDays s \<union> set ds \<and>
   (distinct (map fst s) \<longrightarrow> distinct (map fst s'))"
proof (induction ds arbitrary: s)
  case Nil
  then show ?case by simp
next
  case (Cons d ds)
  show ?case
  proof (cases "scheduleHas s d")
    case True
    with Cons.prems have "easyLoop blk pz ph lv ds s = Some s'" by simp
    from Cons.IH[OF this] True show ?thesis by (auto simp: scheduleHas_days)
  next
    case False
    with Cons.prems obtain b where b: "blk d = Some b"
      by (cases "blk d") simp_all
    define v where "v = (if blocked b then createRestDay (reason b)
      else createEasyRun (getDefaultEasyDistance lv ph) pz ''Easy Run'')"
    from Cons.prems False b have "easyLoop blk pz ph lv ds (AList.update d v s) = Some s'"
      by (simp add: v_def split: if_splits)
    from Cons.IH[OF this] show ?thesis
      by (simp add: distinct_keys_update)
  qed
qed

lemma restLoop_keys:
  "scheduleDays (restLoop ds s) = scheduleDays s \<union> set ds \<and>
   (distinct (map fst s) \<longrightarrow> distinct (map fst (restLoop ds s)))"
proof (induction ds arbitrary: s)
  case Nil
  then show ?case by simp
next
  case (Cons d ds)
  show ?case
  proof (cases "scheduleHas s d")
    case True
    with Cons[of s] show ?thesis by (auto simp: scheduleHas_days)
  next
    case False
    with Cons[of "AList.update d (createRestDay None) s"] show ?thesis
      by (simp add: distinct_keys_update)
  qed
qed

lemma crossTrainingStep_keys:
  "crossTrainingStep blk t s = Some s' \<Longrightarrow>
   scheduleDays s' = scheduleDays s \<union> set_option (crossTrainingDay t) \<and>
   (distinct (map fst s) \<longrightarrow> distinct (map fst s'))"
proof (cases "crossTrainingDay t")
  case None
  assume "crossTrainingStep blk t s = Some s'"
  with None show ?thesis by (simp add: crossTrainingStep_def)
next
  case (Some ct)
  assume a: "crossTrainingStep blk t s = Some s'"
  show ?thesis
  proof (cases "scheduleHas s ct")
    case True
    with a Some show ?thesis by (auto simp: crossTrainingStep_def scheduleHas_days)
  next
    case False
    with a Some obtain b where b: "blk ct = Some b"
      by (cases "blk ct") (simp_all add: crossTrainingStep_def)
    with a Some False have "s' = AList.update ct
        (if blocked b then createRestDay (reason b) else createCrossTraining 40) s"
      by (simp add: crossTrainingStep_def split: if_splits)
    with Some show ?thesis by (simp add: distinct_keys_update)
  qed
qed

lemma placeLongRun_keys:
  "map fst (placeLongRun t adj lb pz ph r lv []) = [longRunSlot t adj]"
  "scheduleDays (placeLongRun t adj lb pz ph r lv []) = {longRunSlot t adj}"
  by (simp_all add: placeLongRun_def longRunSlot_def Let_def)

lemma scheduleFrom_keys:
  assumes "scheduleFrom blk t pz ph r lv lb adj = Some S"
  shows "scheduleDays S = insert (longRunSlot t adj) (listedDays t) \<and> distinct (map fst S)"
proof -
  let ?s0 = "placeLongRun t adj lb pz ph r lv []"
  from assms obtain s1 s2 where
    q: "qualityLoop blk pz ph r lv (qualityDays t) ?s0 = Some s1" and
    e: "easyLoop blk pz ph lv (easyRunDays t) s1 = Some s2" and
    c: "crossTrainingStep blk t (restLoop (restDays t) s2) = Some S"
    by (auto simp: scheduleFrom_def Let_def split: option.splits)
  have d0: "distinct (map fst ?s0)" "scheduleDays ?s0 = {longRunSlot t adj}"
    by (simp_all add: placeLongRun_keys)
  from qualityLoop_keys[OF q] d0
  have k1: "scheduleDays s1 = {longRunSlot t adj} \<union> q_day ` set (qualityDays t)"
    and d1: "distinct (map fst s1)" by auto
  from easyLoop_keys[OF e] k1 d1
  have k2: "scheduleDays s2 = {longRunSlot t adj} \<union> q_day ` set (qualityDays t) \<union> set (easyRunDays t)"
    and d2: "distinct (map fst s2)" by auto
  from restLoop_keys[of "restDays t" s2] k2 d2
  have k3: "scheduleDays (restLoop (restDays t) s2) =
              {longRunSlot t adj} \<union> q_day ` set (qualityDays t) \<union> set (easyRunDays t) \<union> set (restDays t)"
    and d3: "distinct (map fst (restLoop (restDays t) s2))" by auto
  from crossTrainingStep_keys[OF c] k3 d3 show ?thesis
    by (auto simp: listedDays_def)
qed

lemma adjustLongRun_slot:
  "adjustLongRun blk t lb = Some adj \<Longrightarrow>
   longRunSlot t adj = longRunDay t \<or> longRunSlot t adj = pairedAlternate (longRunDay t)"
  by (auto simp: adjustLongRun_def longRunSlot_def pairedAlternate_def Let_def
           split: if_splits option.splits)

text \<open>With valid dates no call of \<open>isDayBlocked\<close> fails, and the generator returns.\<close>

lemma weekDatesValid_blk:
  "weekDatesValid addDays format ws \<Longrightarrow> \<exists>b. isDayBlocked addDays format d ws bd = Some b"
proof -
  assume "weekDatesValid addDays format ws"
  moreover have "d \<in> set DAYS_IN_ORDER" by (cases d) (simp_all add: DAYS_IN_ORDER_def)
  ultimately have "isValidISODate (formatDateISO format (getDateForDay addDays ws d))"
    by (simp add: weekDatesValid_def list_all_iff)
  then show ?thesis
    by (simp add: isDayBlocked_def isDateBlocked_def toISODateString_def Let_def)
qed

lemma qualityLoop_total:
  "(\<And>d. \<exists>b. blk d = Some b) \<Longrightarrow> \<exists>s'. qualityLoop blk pz ph r lv qs s = Some s'"
proof (induction qs arbitrary: s)
  case Nil
  then show ?case by simp
next
  case (Cons q qs)
  from Cons.prems obtain b where "blk (q_day q) = Some b" by blast
  with Cons show ?case by simp
qed

lemma easyLoop_total:
  "(\<And>d. \<exists>b. blk d = Some b) \<Longrightarrow> \<exists>s'. easyLoop blk pz ph lv ds s = Some s'"
proof (induction ds arbitrary: s)
  case Nil
  then show ?case by simp
next
  case (Cons d ds)
  from Cons.prems obtain b where "blk d = Some b" by blast
  with Cons show ?case by simp
qed

lemma crossTrainingStep_total:
  "(\<And>d. \<exists>b. blk d = Some b) \<Longrightarrow> \<exists>s'. crossTrainingStep blk t s = Some s'"
proof -
  assume a: "\<And>d. \<exists>b. blk d = Some b"
  show ?thesis
  proof (cases "crossTrainingDay t")
    case None
    then show ?thesis by (simp add: crossTrainingStep_def)
  next
    case (Some ct)
    from a obtain b where "blk ct = Some b" by blast
    with Some show ?thesis by (simp add: crossTrainingStep_def)
  qed
qed

lemma scheduleFrom_total:
  assumes "\<And>d. \<exists>b. blk d = Some b"
  shows "\<exists>S. scheduleFrom blk t pz ph r lv lb adj = Some S"
proof -
  let ?s0 = "placeLongRun t adj lb pz ph r lv []"
  obtain s1 where q: "qualityLoop blk pz ph r lv (qualityDays t) ?s0 = Some s1"
    using qualityLoop_total[of blk, OF assms] by blast
  obtain s2 where e: "easyLoop blk pz ph lv (easyRunDays t) s1 = Some s2"
    using easyLoop_total[of blk, OF assms] by blast
  obtain S where c: "crossTrainingStep blk t (restLoop (restDays t) s2) = Some S"
    using crossTrainingStep_total[of blk, OF assms] by blast
  show ?thesis by (simp add: scheduleFrom_def Let_def q e c)
qed

lemma adjustLongRun_total:
  "(\<And>d. \<exists>b. blk d = Some b) \<Longrightarrow> \<exists>adj. adjustLongRun blk t lb = Some adj"
proof -
  assume a: "\<And>d. \<exists>b. blk d = Some b"
  obtain b where "blk (if longRunDay t = Sunday then Saturday else Sunday) = Some b"
    using a by blast
  then show ?thesis by (simp add: adjustLongRun_def Let_def)
qed

lemma generateRunningSchedule_total:
  assumes "weekDatesValid addDays format ws"
  shows "\<exists>S. generateRunningSchedule addDays format t pz ph r lv bd ws = Some S"
proof -
  let ?blk = "\<lambda>day. isDayBlocked addDays format day ws bd"
  have a: "\<And>d. \<exists>b. ?blk d = Some b" using weekDatesValid_blk[OF assms] by blast
  obtain lb where l: "?blk (longRunDay t) = Some lb" using a by blast
  obtain adj where ad: "adjustLongRun ?blk t lb = Some adj"
    using adjustLongRun_total[of ?blk, OF a] by blast
  obtain S where "scheduleFrom ?blk t pz ph r lv lb adj = Some S"
    using scheduleFrom_total[of ?blk, OF a] by blast
  then show ?thesis
    unfolding generateRunningSchedule_def Let_def l option.case ad by blast
qed

lemma generateRunningSchedule_steps:
  assumes "generateRunningSchedule addDays format t pz ph r lv bd ws = Some S"
  obtains lb adj where
    "isDayBlocked addDays format (longRunDay t) ws bd = Some lb"
    "adjustLongRun (\<lambda>day. isDayBlocked addDays format day ws bd) t lb = Some adj"
    "scheduleFrom (\<lambda>day. isDayBlocked addDays format day ws bd) t pz ph r lv lb adj = Some S"
  using assms by (auto simp: generateRunningSchedule_def Let_def split: option.splits)

lemma adjustLongRun_unmoved:
  "\<not> blocked lb \<Longrightarrow> adjustLongRun blk t lb = Some adj \<Longrightarrow> longRunSlot t adj = longRunDay t"
  by (auto simp: adjustLongRun_def longRunSlot_def)

lemma adjustLongRun_moved:
  "blocked lb \<Longrightarrow> blk (pairedAlternate (longRunDay t)) = Some ab \<Longrightarrow> \<not> blocked ab \<Longrightarrow>
   adjustLongRun blk t lb = Some (t\<lparr> longRunDay := pairedAlternate (longRunDay t) \<rparr>)"
  by (simp add: adjustLongRun_def pairedAlternate_def Let_def)

lemma adjustLongRun_slot_moves:
  "blk (longRunDay t) = Some lb \<Longrightarrow> adjustLongRun blk t lb = Some adj \<Longrightarrow>
   longRunSlot t adj = (if longRunMoves blk t then pairedAlternate (longRunDay t) else longRunDay t)"
  by (auto simp: adjustLongRun_def longRunSlot_def pairedAlternate_def longRunMoves_def Let_def
           split: if_splits option.splits)

section \<open>The running schedule: what a blocked day holds\<close>

lemma blockedOk_update:
  "blockedOk blk pz ph lv s \<Longrightarrow>
   (\<And>b. blk k = Some b \<Longrightarrow> blocked b \<Longrightarrow> allowedOnBlocked pz ph lv b v) \<Longrightarrow>
   blockedOk blk pz ph lv (AList.update k v s)"
  unfolding blockedOk_def by (auto simp: map_of_update)

lemma qualityLoop_blockedOk:
  "qualityLoop blk pz ph r lv qs s = Some s' \<Longrightarrow> blockedOk blk pz ph lv s \<Longrightarrow>
   blockedOk blk pz ph lv s'"
proof (induction qs arbitrary: s)
  case Nil
  then show ?case by simp
next
  case (Cons q qs)
  from Cons.prems obtain b where b: "blk (q_day q) = Some b"
    by (cases "blk (q_day q)") simp_all
  define v where "v = (if blocked b
      then createEasyRun (getDefaultEasyDistance lv ph - 1) pz
             (''Easy Run (adjusted: '' @ reasonText (reason b) @ '')'')
      else generateWorkout (q_type q) (q_distance q) ph r pz lv)"
  from Cons.prems b have e: "qualityLoop blk pz ph r lv qs (AList.update (q_day q) v s) = Some s'"
    by (simp add: v_def split: if_splits)
  have "blockedOk blk pz ph lv (AList.update (q_day q) v s)"
    using Cons.prems(2) by (rule blockedOk_update) (simp add: b v_def allowedOnBlocked_def)
  with Cons.IH[OF e] show ?case by simp
qed

lemma easyLoop_blockedOk:
  "easyLoop blk pz ph lv ds s = Some s' \<Longrightarrow> blockedOk blk pz ph lv s \<Longrightarrow>
   blockedOk blk pz ph lv s'"
proof (induction ds arbitrary: s)
  case Nil
  then show ?case by simp
next
  case (Cons d ds)
  show ?case
  proof (cases "scheduleHas s d")
    case True
    with Cons.prems have "easyLoop blk pz ph lv ds s = Some s'" by simp
    from Cons.IH[OF this Cons.prems(2)] show ?thesis .
  next
    case False
    with Cons.prems obtain b where b: "blk d = Some b"
      by (cases "blk d") simp_all
    define v where "v = (if blocked b then createRestDay (reason b)
      else createEasyRun (getDefaultEasyDistance lv ph) pz ''Easy Run'')"
    from Cons.prems False b have e: "easyLoop blk pz ph lv ds (AList.update d v s) = Some s'"
      by (simp add: v_def split: if_splits)
    have "blockedOk blk pz ph lv (AList.update d v s)"
      using Cons.prems(2) by (rule blockedOk_update) (simp add: b v_def allowedOnBlocked_def)
    with Cons.IH[OF e] show ?thesis by simp
  qed
qed

lemma restLoop_blockedOk:
  "blockedOk blk pz ph lv s \<Longrightarrow> blockedOk blk pz ph lv (restLoop ds s)"
proof (induction ds arbitrary: s)
  case Nil
  then show ?case by simp
next
  case (Cons d ds)
  show ?case
  proof (cases "scheduleHas s d")
    case True
    with Cons show ?thesis by simp
  next
    case False
    have "blockedOk blk pz ph lv (AList.update d (createRestDay None) s)"
      using Cons.prems by (rule blockedOk_update) (simp add: allowedOnBlocked_def)
    with Cons.IH False show ?thesis by simp
  qed
qed

lemma crossTrainingStep_blockedOk:
  "crossTrainingStep blk t s = Some s' \<Longrightarrow> blockedOk blk pz ph lv s \<Longrightarrow>
   blockedOk blk pz ph lv s'"
proof (cases "crossTrainingDay t")
  case None
  assume "crossTrainingStep blk t s = Some s'" "blockedOk blk pz ph lv s"
  with None show ?thesis by (simp add: crossTrainingStep_def)
next
  case (Some ct)
  assume a: "crossTrainingStep blk t s = Some s'" and ok: "blockedOk blk pz ph lv s"
  show ?thesis
  proof (cases "scheduleHas s ct")
    case True
    with a Some ok show ?thesis by (simp add: crossTrainingStep_def)
  next
    case False
    with a Some obtain b where b: "blk ct = Some b"
      by (cases "blk ct") (simp_all add: crossTrainingStep_def)
    define v where "v = (if blocked b then createRestDay (reason b) else createCrossTraining 40)"
    from a Some False b have "s' = AList.update ct v s"
      by (simp add: crossTrainingStep_def v_def split: if_splits)
    moreover have "blockedOk blk pz ph lv (AList.update ct v s)"
      using ok by (rule blockedOk_update) (simp add: b v_def allowedOnBlocked_def)
    ultimately show ?thesis by simp
  qed
qed

lemma adjustLongRun_unblocked:
  "blk (longRunDay t) = Some lb \<Longrightarrow> adjustLongRun blk t lb = Some adj \<Longrightarrow>
   0 < longRunDistance adj \<Longrightarrow> \<exists>b. blk (longRunDay adj) = Some b \<and> \<not> blocked b"
  by (auto simp: adjustLongRun_def Let_def split: if_splits option.splits)

lemma placeLongRun_blockedOk:
  assumes "blk (longRunDay t) = Some lb" "adjustLongRun blk t lb = Some adj"
  shows "blockedOk blk pz ph lv (placeLongRun t adj lb pz ph r lv [])"
proof (cases "0 < longRunDistance adj")
  case True
  from adjustLongRun_unblocked[OF assms True] obtain b where
    "blk (longRunDay adj) = Some b" "\<not> blocked b" by blast
  with True show ?thesis
    by (simp add: placeLongRun_def Let_def blockedOk_def)
next
  case False
  with assms(1) show ?thesis
    by (simp add: placeLongRun_def blockedOk_def allowedOnBlocked_def)
qed

lemma scheduleFrom_blockedOk:
  assumes "scheduleFrom blk t pz ph r lv lb adj = Some S"
    and "blk (longRunDay t) = Some lb" "adjustLongRun blk t lb = Some adj"
  shows "blockedOk blk pz ph lv S"
proof -
  let ?s0 = "placeLongRun t adj lb pz ph r lv []"
  from assms(1) obtain s1 s2 where
    q: "qualityLoop blk pz ph r lv (qualityDays t) ?s0 = Some s1" and
    e: "easyLoop blk pz ph lv (easyRunDays t) s1 = Some s2" and
    c: "crossTrainingStep blk t (restLoop (restDays t) s2) = Some S"
    by (auto simp: scheduleFrom_def Let_def split: option.splits)
  have "blockedOk blk pz ph lv ?s0" using assms(2,3) by (rule placeLongRun_blockedOk)
  with q have "blockedOk blk pz ph lv s1" by (rule qualityLoop_blockedOk)
  with e have "blockedOk blk pz ph lv s2" by (rule easyLoop_blockedOk)
  then have "blockedOk blk pz ph lv (restLoop (restDays t) s2)" by (rule restLoop_blockedOk)
  with c show ?thesis by (rule crossTrainingStep_blockedOk)
qed

lemma allowedOnBlocked_rtype:
  "allowedOnBlocked pz ph lv b w \<Longrightarrow> rtype w = Rest \<or> rtype w = Easy"
  by (auto simp: allowedOnBlocked_def createRestDay_def createEasyRun_def)

text \<open>A workout already in the schedule survives the later steps, unless a quality
  day overwrites it.\<close>

lemma qualityLoop_preserves:
  "qualityLoop blk pz ph r lv qs s = Some s' \<Longrightarrow> k \<notin> q_day ` set qs \<Longrightarrow>
   map_of s' k = map_of s k"
proof (induction qs arbitrary: s)
  case Nil
  then show ?case by simp
next
  case (Cons q qs)
  from Cons.prems obtain b where b: "blk (q_day q) = Some b"
    by (cases "blk (q_day q)") simp_all
  define v where "v = (if blocked b
      then createEasyRun (getDefaultEasyDistance lv ph - 1) pz
             (''Easy Run (adjusted: '' @ reasonText (reason b) @ '')'')
      else generateWorkout (q_type q) (q_distance q) ph r pz lv)"
  from Cons.prems b have e: "qualityLoop blk pz ph r lv qs (AList.update (q_day q) v s) = Some s'"
    by (simp add: v_def split: if_splits)
  from Cons.prems(2) have "k \<notin> q_day ` set qs" "k \<noteq> q_day q" by auto
  with Cons.IH[OF e] show ?case by (simp add: map_of_update)
qed

lemma easyLoop_preserves:
  "easyLoop blk pz ph lv ds s = Some s' \<Longrightarrow> map_of s k = Some w \<Longrightarrow> map_of s' k = Some w"
proof (induction ds arbitrary: s)
  case Nil
  then show ?case by simp
next
  case (Cons d ds)
  show ?case
  proof (cases "scheduleHas s d")
    case True
    with Cons.prems have "easyLoop blk pz ph lv ds s = Some s'" by simp
    from Cons.IH[OF this Cons.prems(2)] show ?thesis .
  next
    case False
    with Cons.prems obtain b where b: "blk d = Some b"
      by (cases "blk d") simp_all
    define v where "v = (if blocked b then createRestDay (reason b)
      else createEasyRun (getDefaultEasyDistance lv ph) pz ''Easy Run'')"
    from Cons.prems False b have e: "easyLoop blk pz ph lv ds (AList.update d v s) = Some s'"
      by (simp add: v_def split: if_splits)
    from False Cons.prems(2) have "k \<noteq> d" by (auto simp: scheduleHas_iff)
    with Cons.prems(2) have "map_of (AList.update d v s) k = Some w" by (simp add: map_of_update)
    from Cons.IH[OF e this] show ?thesis .
  qed
qed

lemma restLoop_preserves:
  "map_of s k = Some w \<Longrightarrow> map_of (restLoop ds s) k = Some w"
proof (induction ds arbitrary: s)
  case Nil
  then show ?case by simp
next
  case (Cons d ds)
  show ?case
  proof (cases "scheduleHas s d")
    case True
    with Cons show ?thesis by simp
  next
    case False
    with Cons.prems have "k \<noteq> d" by (auto simp: scheduleHas_iff)
    with Cons.prems have "map_of (AList.update d (createRestDay None) s) k = Some w"
      by (simp add: map_of_update)
    from Cons.IH[OF this] False show ?thesis by simp
  qed
qed

lemma crossTrainingStep_preserves:
  "crossTrainingStep blk t s = Some s' \<Longrightarrow> map_of s k = Some w \<Longrightarrow> map_of s' k = Some w"
proof (cases "crossTrainingDay t")
  case None
  assume "crossTrainingStep blk t s = Some s'" "map_of s k = Some w"
  with None show ?thesis by (simp add: crossTrainingStep_def)
next
  case (Some ct)
  assume a: "crossTrainingStep blk t s = Some s'" and m: "map_of s k = Some w"
  show ?thesis
  proof (cases "scheduleHas s ct")
    case True
    with a Some m show ?thesis by (simp add: crossTrainingStep_def)
  next
    case False
    with a Some obtain b where b: "blk ct = Some b"
      by (cases "blk ct") (simp_all add: crossTrainingStep_def)
    define v where "v = (if blocked b then createRestDay (reason b) else createCrossTraining 40)"
    from a Some False b have "s' = AList.update ct v s"
      by (simp add: crossTrainingStep_def v_def split: if_splits)
    moreover from False m have "k \<noteq> ct" by (auto simp: scheduleHas_iff)
    ultimately show ?thesis using m by (simp add: map_of_update)
  qed
qed

lemma scheduleFrom_keeps_long_run:
  assumes "scheduleFrom blk t pz ph r lv lb adj = Some S"
    and "0 < longRunDistance adj" and "longRunDay adj \<notin> q_day ` set (qualityDays t)"
  shows "\<exists>w. map_of S (longRunDay adj) = Some w
           \<and> totalDistance w = Some (longRunDistance adj)
           \<and> rtype w = (if ph = Build \<and> \<not> r then Progression else Long)"
proof -
  let ?s0 = "placeLongRun t adj lb pz ph r lv []"
  from assms(1) obtain s1 s2 where
    q: "qualityLoop blk pz ph r lv (qualityDays t) ?s0 = Some s1" and
    e: "easyLoop blk pz ph lv (easyRunDays t) s1 = Some s2" and
    c: "crossTrainingStep blk t (restLoop (restDays t) s2) = Some S"
    by (auto simp: scheduleFrom_def Let_def split: option.splits)
  obtain w where w: "map_of ?s0 (longRunDay adj) = Some w"
    and d: "totalDistance w = Some (longRunDistance adj)"
    and ty: "rtype w = (if ph = Build \<and> \<not> r then Progression else Long)"
    using assms(2)
    by (auto simp: placeLongRun_def Let_def createLongRun_def orDefault_def)
  from qualityLoop_preserves[OF q assms(3)] w have "map_of s1 (longRunDay adj) = Some w" by simp
  with e have "map_of s2 (longRunDay adj) = Some w" by (rule easyLoop_preserves)
  then have "map_of (restLoop (restDays t) s2) (longRunDay adj) = Some w" by (rule restLoop_preserves)
  with c have "map_of S (longRunDay adj) = Some w" by (rule crossTrainingStep_preserves)
  with d ty show ?thesis by blast
qed

text \<open>The workout that a blocked day ends with, step by step.\<close>

lemma qualityLoop_value:
  "qualityLoop blk pz ph r lv qs s = Some s' \<Longrightarrow> k \<in> q_day ` set qs \<Longrightarrow>
   blk k = Some b \<Longrightarrow> blocked b \<Longrightarrow>
   map_of s' k = Some (createEasyRun (getDefaultEasyDistance lv ph - 1) pz
                         (''Easy Run (adjusted: '' @ reasonText (reason b) @ '')''))"
proof (induction qs arbitrary: s)
  case Nil
  then show ?case by simp
next
  case (Cons q qs)
  from Cons.prems obtain bq where bq: "blk (q_day q) = Some bq"
    by (cases "blk (q_day q)") simp_all
  define v where "v = (if blocked bq
      then createEasyRun (getDefaultEasyDistance lv ph - 1) pz
             (''Easy Run (adjusted: '' @ reasonText (reason bq) @ '')'')
      else generateWorkout (q_type q) (q_distance q) ph r pz lv)"
  from Cons.prems bq have e: "qualityLoop blk pz ph r lv qs (AList.update (q_day q) v s) = Some s'"
    by (simp add: v_def split: if_splits)
  show ?case
  proof (cases "k \<in> q_day ` set qs")
    case True
    from Cons.IH[OF e True Cons.prems(3,4)] show ?thesis .
  next
    case False
    with Cons.prems(2) have k: "k = q_day q" by simp
    with bq Cons.prems(3,4) have "v = createEasyRun (getDefaultEasyDistance lv ph - 1) pz
             (''Easy Run (adjusted: '' @ reasonText (reason b) @ '')'')"
      by (simp add: v_def)
    with qualityLoop_preserves[OF e False] k show ?thesis by (simp add: map_of_update)
  qed
qed

lemma easyLoop_value:
  "easyLoop blk pz ph lv ds s = Some s' \<Longrightarrow> map_of s k = None \<Longrightarrow>
   blk k = Some b \<Longrightarrow> blocked b \<Longrightarrow>
   map_of s' k = (if k \<in> set ds then Some (createRestDay (reason b)) else None)"
proof (induction ds arbitrary: s)
  case Nil
  then show ?case by simp
next
  case (Cons d ds)
  show ?case
  proof (cases "scheduleHas s d")
    case True
    with Cons.prems have e: "easyLoop blk pz ph lv ds s = Some s'" by simp
    from True Cons.prems(2) have "k \<noteq> d" by (auto simp: scheduleHas_iff)
    with Cons.IH[OF e Cons.prems(2,3,4)] show ?thesis by simp
  next
    case False
    with Cons.prems obtain bd where bd: "blk d = Some bd"
      by (cases "blk d") simp_all
    define v where "v = (if blocked bd then createRestDay (reason bd)
      else createEasyRun (getDefaultEasyDistance lv ph) pz ''Easy Run'')"
    from Cons.prems False bd have e: "easyLoop blk pz ph lv ds (AList.update d v s) = Some s'"
      by (simp add: v_def split: if_splits)
    show ?thesis
    proof (cases "k = d")
      case True
      with bd Cons.prems(3,4) have "v = createRestDay (reason b)" by (simp add: v_def)
      with True have "map_of (AList.update d v s) k = Some (createRestDay (reason b))"
        by (simp add: map_of_update)
      with e have "map_of s' k = Some (createRestDay (reason b))" by (rule easyLoop_preserves)
      with True show ?thesis by simp
    next
      case False
      with Cons.prems(2) have "map_of (AList.update d v s) k = None" by (simp add: map_of_update)
      from Cons.IH[OF e this Cons.prems(3,4)] False show ?thesis by simp
    qed
  qed
qed

lemma restLoop_value:
  "map_of s k = None \<Longrightarrow>
   map_of (restLoop ds s) k = (if k \<in> set ds then Some (createRestDay None) else None)"
proof (induction ds arbitrary: s)
  case Nil
  then show ?case by simp
next
  case (Cons d ds)
  show ?case
  proof (cases "scheduleHas s d")
    case True
    with Cons.prems have "k \<noteq> d" by (auto simp: scheduleHas_iff)
    with Cons.IH[OF Cons.prems] True show ?thesis by simp
  next
    case False
    show ?thesis
    proof (cases "k = d")
      case True
      then have "map_of (AList.update d (createRestDay None) s) k = Some (createRestDay None)"
        by (simp add: map_of_update)
      then have "map_of (restLoop ds (AList.update d (createRestDay None) s)) k
                   = Some (createRestDay None)"
        by (rule restLoop_preserves)
      with True \<open>\<not> scheduleHas s d\<close> show ?thesis by simp
    next
      case kd: False
      with Cons.prems have "map_of (AList.update d (createRestDay None) s) k = None"
        by (simp add: map_of_update)
      from Cons.IH[OF this] kd False show ?thesis by simp
    qed
  qed
qed

lemma crossTrainingStep_value:
  assumes "crossTrainingStep blk t s = Some s'" and "map_of s k = None"
    and "blk k = Some b" and "blocked b"
  shows "map_of s' k = (if crossTrainingDay t = Some k then Some (createRestDay (reason b))
                        else None)"
proof (cases "crossTrainingDay t")
  case None
  with assms show ?thesis by (simp add: crossTrainingStep_def)
next
  case (Some ct)
  show ?thesis
  proof (cases "scheduleHas s ct")
    case True
    with assms(2) have "ct \<noteq> k" by (auto simp: scheduleHas_iff)
    with assms True Some show ?thesis by (simp add: crossTrainingStep_def)
  next
    case False
    with assms(1) Some obtain bc where bc: "blk ct = Some bc"
      by (cases "blk ct") (simp_all add: crossTrainingStep_def)
    define v where "v = (if blocked bc then createRestDay (reason bc) else createCrossTraining 40)"
    from assms(1) Some False bc have s': "s' = AList.update ct v s"
      by (simp add: crossTrainingStep_def v_def split: if_splits)
    show ?thesis
    proof (cases "ct = k")
      case True
      with bc assms(3,4) have "v = createRestDay (reason b)" by (simp add: v_def)
      with True Some s' show ?thesis by (simp add: map_of_update)
    next
      case False
      with Some s' assms(2) show ?thesis by (simp add: map_of_update)
    qed
  qed
qed

lemma placeLongRun_value:
  assumes "blk (longRunDay t) = Some lb" and "adjustLongRun blk t lb = Some adj"
    and "blk k = Some b" and "blocked b"
  shows "map_of (placeLongRun t adj lb pz ph r lv []) k
           = (if k = longRunDay t \<and> \<not> longRunMoves blk t then Some (createRestDay (reason b))
              else None)"
proof (cases "0 < longRunDistance adj")
  case True
  from adjustLongRun_unblocked[OF assms(1,2) True] obtain ba where
    ba: "blk (longRunDay adj) = Some ba" "\<not> blocked ba" by blast
  with assms(3,4) have ne: "k \<noteq> longRunDay adj" by auto
  have "k = longRunDay t \<longrightarrow> longRunMoves blk t"
    using assms True ne
    by (auto simp: adjustLongRun_def longRunMoves_def pairedAlternate_def Let_def
             split: if_splits option.splits)
  with True ne show ?thesis by (simp add: placeLongRun_def Let_def)
next
  case False
  have "k = longRunDay t \<longrightarrow> \<not> longRunMoves blk t \<and> lb = b"
    using assms False
    by (auto simp: adjustLongRun_def longRunMoves_def pairedAlternate_def Let_def
             split: if_splits option.splits)
  with False show ?thesis by (auto simp: placeLongRun_def)
qed

lemma blocked_day_value:
  assumes sf: "scheduleFrom blk t pz ph r lv lb adj = Some S"
    and l: "blk (longRunDay t) = Some lb" and ad: "adjustLongRun blk t lb = Some adj"
    and b: "blk d = Some b" "blocked b"
  shows "map_of S d =
           (if d \<in> q_day ` set (qualityDays t)
            then Some (createEasyRun (getDefaultEasyDistance lv ph - 1) pz
                         (''Easy Run (adjusted: '' @ reasonText (reason b) @ '')''))
            else if d = longRunDay t \<and> \<not> longRunMoves blk t
            then Some (createRestDay (reason b))
            else if d \<in> set (easyRunDays t) then Some (createRestDay (reason b))
            else if d \<in> set (restDays t) then Some (createRestDay None)
            else if crossTrainingDay t = Some d then Some (createRestDay (reason b))
            else None)"
proof -
  let ?s0 = "placeLongRun t adj lb pz ph r lv []"
  from sf obtain s1 s2 where
    q: "qualityLoop blk pz ph r lv (qualityDays t) ?s0 = Some s1" and
    e: "easyLoop blk pz ph lv (easyRunDays t) s1 = Some s2" and
    c: "crossTrainingStep blk t (restLoop (restDays t) s2) = Some S"
    by (auto simp: scheduleFrom_def Let_def split: option.splits)
  have keep: "map_of S d = Some w" if "map_of s1 d = Some w" for w
  proof -
    from e that have "map_of s2 d = Some w" by (rule easyLoop_preserves)
    then have "map_of (restLoop (restDays t) s2) d = Some w" by (rule restLoop_preserves)
    with c show ?thesis by (rule crossTrainingStep_preserves)
  qed
  show ?thesis
  proof (cases "d \<in> q_day ` set (qualityDays t)")
    case True
    from qualityLoop_value[OF q True b] keep True show ?thesis by simp
  next
    case nq: False
    from qualityLoop_preserves[OF q nq] placeLongRun_value[OF l ad b]
    have v1: "map_of s1 d = (if d = longRunDay t \<and> \<not> longRunMoves blk t
                             then Some (createRestDay (reason b)) else None)"
      by simp
    show ?thesis
    proof (cases "d = longRunDay t \<and> \<not> longRunMoves blk t")
      case True
      with v1 keep nq show ?thesis by simp
    next
      case nl: False
      with v1 have n1: "map_of s1 d = None" by simp
      note v2 = easyLoop_value[OF e n1 b]
      show ?thesis
      proof (cases "d \<in> set (easyRunDays t)")
        case True
        with v2 have "map_of s2 d = Some (createRestDay (reason b))" by simp
        then have "map_of (restLoop (restDays t) s2) d = Some (createRestDay (reason b))"
          by (rule restLoop_preserves)
        with c have "map_of S d = Some (createRestDay (reason b))"
          by (rule crossTrainingStep_preserves)
        with nq nl True show ?thesis by auto
      next
        case ne: False
        with v2 have n2: "map_of s2 d = None" by simp
        note v3 = restLoop_value[OF n2, of "restDays t"]
        show ?thesis
        proof (cases "d \<in> set (restDays t)")
          case True
          with v3 have "map_of (restLoop (restDays t) s2) d = Some (createRestDay None)" by simp
          with c have "map_of S d = Some (createRestDay None)"
            by (rule crossTrainingStep_preserves)
          with nq nl ne True show ?thesis by auto
        next
          case nr: False
          with v3 have n3: "map_of (restLoop (restDays t) s2) d = None" by simp
          from crossTrainingStep_value[OF c n3 b] nq nl ne nr show ?thesis by auto
        qed
      qed
    qed
  qed
qed

lemma workoutTypes_map_of: "workoutTypes S d = map_option rtype (map_of S d)"
  unfolding workoutTypes_def by (induction S) auto


section \<open>A preferred eligible day gets a strength session\<close>

lemma allocateSessions_done:
  "int (sessionsScheduled st) \<ge> tgt \<Longrightarrow> allocateSessions ww ph r tgt days st = st"
  by (cases days) simp_all

lemma sortedDays_head:
  assumes "d \<in> set xs"
  shows "\<exists>rest. sortedDays [d] xs = d # rest"
proof -
  define f where "f = (\<lambda>a. if a \<in> set [d] then (0::int) else 1)"
  define s where "s = sort_key f xs"
  have fd: "f d = 0" and fo: "\<And>x. f x = 0 \<Longrightarrow> x = d"
    by (auto simp: f_def split: if_splits)
  from assms have m: "d \<in> set s" by (simp add: s_def)
  then obtain h rest where hr: "s = h # rest" by (cases s) auto
  have "sorted (map f s)" unfolding s_def by (rule sorted_sort_key)
  with hr have "\<forall>x \<in> set rest. f h \<le> f x" by simp
  with m hr have "f h \<le> f d" by auto
  moreover have "0 \<le> f h" by (simp add: f_def)
  ultimately have "f h = 0" using fd by simp
  then have "h = d" by (rule fo)
  with hr show ?thesis by (auto simp: sortedDays_def s_def f_def)
qed

lemma preferred_day_gets_session:
  assumes "canLiftOnDay d ww"
  shows "map fst (scheduleStrengthForWeek ww (onlyDay d) Base False) = [d]"
proof -
  let ?av = "filter (\<lambda>day. canLiftOnDay day ww) DAYS_IN_ORDER"
  let ?st0 = "\<lparr> allocations = [], legsScheduled = False, upperScheduled = False,
                     sessionsScheduled = 0 \<rparr>"
  have "d \<in> set DAYS_IN_ORDER" by (cases d) (simp_all add: DAYS_IN_ORDER_def)
  with assms have "d \<in> set ?av" by simp
  then obtain rest where s: "sortedDays [d] ?av = d # rest"
    using sortedDays_head by blast
  have t: "getStrengthDaysForPhase 1 Base False = 1"
    by (simp add: getStrengthDaysForPhase_def)
  have k: "sessionsScheduled (allocateDay ww Base False d ?st0) = 1"
    by (simp add: allocateDay_def split: prod.splits)
  have "allocateSessions ww Base False 1 (d # rest) ?st0
          = allocateSessions ww Base False 1 rest (allocateDay ww Base False d ?st0)"
    by simp
  also have "\<dots> = allocateDay ww Base False d ?st0"
    by (rule allocateSessions_done) (simp add: k)
  finally have e: "allocateSessions ww Base False 1 (d # rest) ?st0 = allocateDay ww Base False d ?st0" .
  have m: "map fst (allocations (allocateDay ww Base False d ?st0)) = [d]"
    by (simp add: allocateDay_def split: prod.splits)
  have "scheduleStrengthForWeek ww (onlyDay d) Base False
          = allocations (allocateSessions ww Base False 1 (d # rest) ?st0)"
    unfolding scheduleStrengthForWeek_def Let_def onlyDay_def by (simp add: t s)
  with e m show ?thesis by simp
qed

section \<open>Worked running weeks\<close>

lemma example_dates:
  "formatDateISO febFormat (getDateForDay febAddDays exampleWeekStart Monday) = ''2026-02-16''"
  "formatDateISO febFormat (getDateForDay febAddDays exampleWeekStart Tuesday) = ''2026-02-17''"
  "formatDateISO febFormat (getDateForDay febAddDays exampleWeekStart Wednesday) = ''2026-02-18''"
  "formatDateISO febFormat (getDateForDay febAddDays exampleWeekStart Thursday) = ''2026-02-19''"
  "formatDateISO febFormat (getDateForDay febAddDays exampleWeekStart Friday) = ''2026-02-20''"
  "formatDateISO febFormat (getDateForDay febAddDays exampleWeekStart Saturday) = ''2026-02-21''"
  "formatDateISO febFormat (getDateForDay febAddDays exampleWeekStart Sunday) = ''2026-02-22''"
  by (simp_all add: formatDateISO_def getDateForDay_def febAddDays_def febFormat_def
      exampleWeekStart_def digitChar_def)

lemma example_valid:
  "isValidISODate ''2026-02-16''" "isValidISODate ''2026-02-17''" "isValidISODate ''2026-02-18''"
  "isValidISODate ''2026-02-19''" "isValidISODate ''2026-02-20''" "isValidISODate ''2026-02-21''"
  "isValidISODate ''2026-02-22''"
  by (simp_all add: isValidISODate_def isDigit_def daysInMonth_def isLeapYear_def)

lemma example_weekDatesValid: "weekDatesValid febAddDays febFormat exampleWeekStart"
  by (simp add: weekDatesValid_def DAYS_IN_ORDER_def example_dates example_valid)

lemma blk_sundayTravel:
  "isDayBlocked febAddDays febFormat d exampleWeekStart sundayTravel =
     Some (if d = Sunday then \<lparr> blocked = True, reason = Some ''Work travel'' \<rparr>
           else \<lparr> blocked = False, reason = None \<rparr>)"
  by (cases d)
     (simp_all add: isDayBlocked_def isDateBlocked_def toISODateString_def example_dates
        example_valid sundayTravel_def less_eq_char_def less_char_def)

lemma blk_fridaySkiing:
  "isDayBlocked febAddDays febFormat d exampleWeekStart fridaySkiing =
     Some (if d = Friday then \<lparr> blocked = True, reason = Some ''Skiing'' \<rparr>
           else \<lparr> blocked = False, reason = None \<rparr>)"
  by (cases d)
     (simp_all add: isDayBlocked_def isDateBlocked_def toISODateString_def example_dates
        example_valid fridaySkiing_def less_eq_char_def less_char_def)

lemma blk_none:
  "isDayBlocked febAddDays febFormat d exampleWeekStart [] =
     Some \<lparr> blocked = False, reason = None \<rparr>"
  by (cases d)
     (simp_all add: isDayBlocked_def isDateBlocked_def toISODateString_def example_dates
        example_valid)

lemmas gen_defs = generateRunningSchedule_def adjustLongRun_def scheduleFrom_def placeLongRun_def
  crossTrainingStep_def scheduleHas_def Let_def

lemma sched_sundayTravel:
  "map_option (map (\<lambda>(d, w). (d, rtype w, totalDistance w, workout_notes w)))
     (generateRunningSchedule febAddDays febFormat baseWeekTemplate examplePaceZones Base False
        Moderate sundayTravel exampleWeekStart)
   = Some [(Saturday, Long, Some 10, None), (Tuesday, Tempo, Some 6, None),
           (Monday, Easy, Some 4, None), (Wednesday, Easy, Some 4, None),
           (Friday, Easy, Some 4, None), (Thursday, Rest, None, None)]"
  by (simp add: gen_defs blk_sundayTravel baseWeekTemplate_def createRestDay_def
      createEasyRun_def createLongRun_def createTempoRun_def createCrossTraining_def
      orDefault_def getDefaultEasyDistance_def)

lemma sched_fridaySkiing:
  "map_option (map (\<lambda>(d, w). (d, rtype w, totalDistance w, workout_notes w)))
     (generateRunningSchedule febAddDays febFormat baseWeekTemplate examplePaceZones Base False
        Moderate fridaySkiing exampleWeekStart)
   = Some [(Sunday, Long, Some 10, None), (Tuesday, Tempo, Some 6, None),
           (Monday, Easy, Some 4, None), (Wednesday, Easy, Some 4, None),
           (Friday, Rest, None, Some ''Skiing''), (Thursday, Rest, None, None),
           (Saturday, Cross_training, None, None)]"
  by (simp add: gen_defs blk_fridaySkiing baseWeekTemplate_def createRestDay_def
      createEasyRun_def createLongRun_def createTempoRun_def createCrossTraining_def
      orDefault_def getDefaultEasyDistance_def)


lemma days_sixDay:
  "map_option (map fst)
     (generateRunningSchedule febAddDays febFormat sixDayTemplate examplePaceZones Base False
        Moderate [] exampleWeekStart)
     = Some [Sunday, Tuesday, Monday, Wednesday, Friday, Thursday]"
  by (simp add: gen_defs blk_none sixDayTemplate_def baseWeekTemplate_def)

lemma moves_none:
  "\<not> longRunMoves (\<lambda>day. isDayBlocked febAddDays febFormat day exampleWeekStart []) t"
  by (simp add: longRunMoves_def blk_none)

lemma moves_sundayTravel:
  "longRunMoves (\<lambda>day. isDayBlocked febAddDays febFormat day exampleWeekStart sundayTravel)
     sixDayTemplate"
  by (simp add: longRunMoves_def blk_sundayTravel sixDayTemplate_def baseWeekTemplate_def
      pairedAlternate_def)

lemma blk_weekAway:
  "isDayBlocked febAddDays febFormat d exampleWeekStart weekAway =
     Some (if d = Monday then \<lparr> blocked = False, reason = None \<rparr>
           else \<lparr> blocked = True, reason = Some ''Skiing'' \<rparr>)"
  by (cases d)
     (simp_all add: isDayBlocked_def isDateBlocked_def toISODateString_def example_dates
        example_valid weekAway_def less_eq_char_def less_char_def)

lemma moves_weekAway:
  "\<not> longRunMoves (\<lambda>day. isDayBlocked febAddDays febFormat day exampleWeekStart weekAway)
        baseWeekTemplate"
  by (simp add: longRunMoves_def blk_weekAway baseWeekTemplate_def pairedAlternate_def)

section \<open>Properties of the running schedule\<close>

text \<open>
  C1 (coverage), as the code has it. The claim asks for a workout on each of the seven
  weekdays for every template. The generator only walks the days the template names, so
  a weekday the template leaves out gets nothing: in \<open>sixDayTemplate\<close> Saturday is not
  listed and the schedule has six entries.
\<close>

theorem generateRunningSchedule_six_days:
  "map_option (map fst)
     (generateRunningSchedule febAddDays febFormat sixDayTemplate examplePaceZones Base False
        Moderate [] exampleWeekStart)
     = Some [Sunday, Tuesday, Monday, Wednesday, Friday, Thursday]
   \<and> Saturday \<notin> set [Sunday, Tuesday, Monday, Wednesday, Friday, Thursday]"
  using days_sixDay by simp

text \<open>
  C1, amended. When the dates of the week are valid the generator returns a schedule in
  which no weekday holds two workouts. If the long run is not moved (its day is not blocked,
  or the paired weekend day is blocked too, or there is no long run to place), the weekdays
  that hold a workout are exactly the template's long-run day and the days it lists as
  quality, easy-run, rest or cross-training days: the week is covered exactly when the
  template names all seven days. If the long run is moved, every listed day and the paired
  day hold a workout, and no weekday outside these and the original long-run day holds one.
\<close>

theorem generateRunningSchedule_coverage:
  assumes "weekDatesValid addDays format weekStart"
  shows "\<exists>S. generateRunningSchedule addDays format template paceZones phase isRecovery level
               blockedDates weekStart = Some S
           \<and> distinct (map fst S)
           \<and> (if longRunMoves (\<lambda>day. isDayBlocked addDays format day weekStart blockedDates)
                    template
               then listedDays template \<union> {pairedAlternate (longRunDay template)}
                      \<subseteq> scheduleDays S
                    \<and> scheduleDays S
                      \<subseteq> listedDays template
                          \<union> {pairedAlternate (longRunDay template), longRunDay template}
               else scheduleDays S = listedDays template \<union> {longRunDay template})"
proof -
  let ?blk = "\<lambda>day. isDayBlocked addDays format day weekStart blockedDates"
  from generateRunningSchedule_total[OF assms] obtain S where
    g: "generateRunningSchedule addDays format template paceZones phase isRecovery level
          blockedDates weekStart = Some S" by blast
  from g obtain lb adj where
    l: "?blk (longRunDay template) = Some lb" and
    ad: "adjustLongRun ?blk template lb = Some adj" and
    sf: "scheduleFrom ?blk template paceZones phase isRecovery level lb adj = Some S"
    by (rule generateRunningSchedule_steps)
  from scheduleFrom_keys[OF sf]
  have k: "scheduleDays S = insert (longRunSlot template adj) (listedDays template)"
    and d: "distinct (map fst S)" by simp_all
  note s = adjustLongRun_slot_moves[of ?blk, OF l ad]
  have "if longRunMoves ?blk template
        then listedDays template \<union> {pairedAlternate (longRunDay template)} \<subseteq> scheduleDays S
             \<and> scheduleDays S
               \<subseteq> listedDays template \<union> {pairedAlternate (longRunDay template), longRunDay template}
        else scheduleDays S = listedDays template \<union> {longRunDay template}"
    unfolding k s by auto
  with g d show ?thesis by blast
qed

theorem generateRunningSchedule_coverage_witness:
  "weekDatesValid febAddDays febFormat exampleWeekStart
   \<and> \<not> longRunMoves (\<lambda>day. isDayBlocked febAddDays febFormat day exampleWeekStart [])
          baseWeekTemplate
   \<and> (\<exists>S. generateRunningSchedule febAddDays febFormat baseWeekTemplate examplePaceZones Base
              False Moderate [] exampleWeekStart = Some S
          \<and> distinct (map fst S) \<and> scheduleDays S = UNIV)
   \<and> longRunMoves (\<lambda>day. isDayBlocked febAddDays febFormat day exampleWeekStart sundayTravel)
          sixDayTemplate
   \<and> Saturday \<notin> listedDays sixDayTemplate
   \<and> (\<exists>S. generateRunningSchedule febAddDays febFormat sixDayTemplate examplePaceZones Base
              False Moderate sundayTravel exampleWeekStart = Some S
          \<and> distinct (map fst S) \<and> Saturday \<in> scheduleDays S)"
proof -
  have u: "insert (longRunDay baseWeekTemplate) (listedDays baseWeekTemplate) = UNIV"
  proof -
    have "d \<in> insert (longRunDay baseWeekTemplate) (listedDays baseWeekTemplate)" for d
      by (cases d) (simp_all add: listedDays_def baseWeekTemplate_def)
    then show ?thesis by blast
  qed
  have n: "Saturday \<notin> listedDays sixDayTemplate"
    by (simp add: listedDays_def sixDayTemplate_def baseWeekTemplate_def)
  have p: "pairedAlternate (longRunDay sixDayTemplate) = Saturday"
    by (simp add: sixDayTemplate_def baseWeekTemplate_def pairedAlternate_def)
  from generateRunningSchedule_coverage[OF example_weekDatesValid,
         of baseWeekTemplate examplePaceZones Base False Moderate "[]"]
  have a: "\<exists>S. generateRunningSchedule febAddDays febFormat baseWeekTemplate examplePaceZones Base
              False Moderate [] exampleWeekStart = Some S
          \<and> distinct (map fst S) \<and> scheduleDays S = UNIV"
    by (simp add: moves_none u)
  from generateRunningSchedule_coverage[OF example_weekDatesValid,
         of sixDayTemplate examplePaceZones Base False Moderate sundayTravel]
  have b: "\<exists>S. generateRunningSchedule febAddDays febFormat sixDayTemplate examplePaceZones Base
              False Moderate sundayTravel exampleWeekStart = Some S
          \<and> distinct (map fst S) \<and> Saturday \<in> scheduleDays S"
    by (auto simp add: moves_sundayTravel p)
  from example_weekDatesValid moves_none[of baseWeekTemplate] a moves_sundayTravel n b
  show ?thesis by blast
qed

text \<open>
  C2 (moving the long run), as the code has it. With the base week and Sunday blocked, the
  long run moves to Saturday at its distance of 10, but Sunday, the original long-run day,
  gets no workout at all (it is not a rest day carrying the reason), and a workout has no
  field in which an adjustment could be recorded.
\<close>

theorem moved_long_run_leaves_sunday_empty:
  "map_option blocked (isDayBlocked febAddDays febFormat Sunday exampleWeekStart sundayTravel)
     = Some True
   \<and> map_option blocked (isDayBlocked febAddDays febFormat Saturday exampleWeekStart sundayTravel)
     = Some False
   \<and> map_option (map (\<lambda>(d, w). (d, rtype w, totalDistance w, workout_notes w)))
        (generateRunningSchedule febAddDays febFormat baseWeekTemplate examplePaceZones Base False
           Moderate sundayTravel exampleWeekStart)
      = Some [(Saturday, Long, Some 10, None), (Tuesday, Tempo, Some 6, None),
              (Monday, Easy, Some 4, None), (Wednesday, Easy, Some 4, None),
              (Friday, Easy, Some 4, None), (Thursday, Rest, None, None)]
   \<and> Sunday \<notin> set [Saturday, Tuesday, Monday, Wednesday, Friday, Thursday]"
  using sched_sundayTravel by (simp add: blk_sundayTravel)

text \<open>
  C2, amended. If the dates of the week are valid, the template's long-run day is blocked,
  the paired weekend day (Saturday for a Sunday long run, Sunday otherwise) is not blocked
  and is not a quality day, and the long-run distance is positive, then the schedule holds
  on the paired day a long run (a progression run in a build week that is not a recovery
  week) of the template's long-run distance.
\<close>

theorem long_run_moves_to_paired_day:
  assumes "weekDatesValid addDays format weekStart"
    and "map_option blocked
           (isDayBlocked addDays format (longRunDay template) weekStart blockedDates) = Some True"
    and "map_option blocked
           (isDayBlocked addDays format (pairedAlternate (longRunDay template)) weekStart
              blockedDates) = Some False"
    and "0 < longRunDistance template"
    and "pairedAlternate (longRunDay template) \<notin> q_day ` set (qualityDays template)"
  shows "\<exists>S w. generateRunningSchedule addDays format template paceZones phase isRecovery level
                 blockedDates weekStart = Some S
             \<and> map_of S (pairedAlternate (longRunDay template)) = Some w
             \<and> totalDistance w = Some (longRunDistance template)
             \<and> rtype w = (if phase = Build \<and> \<not> isRecovery then Progression else Long)"
proof -
  let ?blk = "\<lambda>day. isDayBlocked addDays format day weekStart blockedDates"
  let ?adj = "template\<lparr> longRunDay := pairedAlternate (longRunDay template) \<rparr>"
  from generateRunningSchedule_total[OF assms(1)] obtain S where
    g: "generateRunningSchedule addDays format template paceZones phase isRecovery level
          blockedDates weekStart = Some S" by blast
  from g obtain lb adj where
    l: "?blk (longRunDay template) = Some lb" and
    ad: "adjustLongRun ?blk template lb = Some adj" and
    sf: "scheduleFrom ?blk template paceZones phase isRecovery level lb adj = Some S"
    by (rule generateRunningSchedule_steps)
  from assms(2) l have bl: "blocked lb" by simp
  from assms(3) obtain ab where
    a: "?blk (pairedAlternate (longRunDay template)) = Some ab" and na: "\<not> blocked ab"
    by (cases "?blk (pairedAlternate (longRunDay template))") simp_all
  from adjustLongRun_moved[of lb ?blk, OF bl a na] ad have e: "adj = ?adj" by simp
  have "0 < longRunDistance adj"
    and "longRunDay adj \<notin> q_day ` set (qualityDays template)"
    using assms(4,5) by (simp_all add: e)
  from scheduleFrom_keeps_long_run[OF sf this] obtain w where
    "map_of S (longRunDay adj) = Some w"
    "totalDistance w = Some (longRunDistance adj)"
    "rtype w = (if phase = Build \<and> \<not> isRecovery then Progression else Long)"
    by blast
  then have "map_of S (pairedAlternate (longRunDay template)) = Some w
      \<and> totalDistance w = Some (longRunDistance template)
      \<and> rtype w = (if phase = Build \<and> \<not> isRecovery then Progression else Long)"
    by (simp add: e)
  with g show ?thesis by blast
qed

theorem long_run_moves_to_paired_day_witness:
  "weekDatesValid febAddDays febFormat exampleWeekStart
   \<and> map_option blocked
        (isDayBlocked febAddDays febFormat (longRunDay baseWeekTemplate) exampleWeekStart
           sundayTravel) = Some True
   \<and> map_option blocked
        (isDayBlocked febAddDays febFormat (pairedAlternate (longRunDay baseWeekTemplate))
           exampleWeekStart sundayTravel) = Some False
   \<and> 0 < longRunDistance baseWeekTemplate
   \<and> pairedAlternate (longRunDay baseWeekTemplate) \<notin> q_day ` set (qualityDays baseWeekTemplate)
   \<and> (\<exists>S w. generateRunningSchedule febAddDays febFormat baseWeekTemplate examplePaceZones Base
                False Moderate sundayTravel exampleWeekStart = Some S
            \<and> map_of S Saturday = Some w \<and> totalDistance w = Some 10 \<and> rtype w = Long)"
proof -
  have h1: "map_option blocked
        (isDayBlocked febAddDays febFormat (longRunDay baseWeekTemplate) exampleWeekStart
           sundayTravel) = Some True"
    and h2: "map_option blocked
        (isDayBlocked febAddDays febFormat (pairedAlternate (longRunDay baseWeekTemplate))
           exampleWeekStart sundayTravel) = Some False"
    by (simp_all add: blk_sundayTravel baseWeekTemplate_def pairedAlternate_def)
  have h3: "0 < longRunDistance baseWeekTemplate"
    and h4: "pairedAlternate (longRunDay baseWeekTemplate)
               \<notin> q_day ` set (qualityDays baseWeekTemplate)"
    by (simp_all add: baseWeekTemplate_def pairedAlternate_def)
  have p: "pairedAlternate (longRunDay baseWeekTemplate) = Saturday"
    and q: "longRunDistance baseWeekTemplate = 10"
    by (simp_all add: baseWeekTemplate_def pairedAlternate_def)
  from long_run_moves_to_paired_day[OF example_weekDatesValid h1 h2 h3 h4,
         of examplePaceZones Base False Moderate]
  have "\<exists>S w. generateRunningSchedule febAddDays febFormat baseWeekTemplate examplePaceZones Base
                False Moderate sundayTravel exampleWeekStart = Some S
            \<and> map_of S Saturday = Some w \<and> totalDistance w = Some 10 \<and> rtype w = Long"
    unfolding p q by simp
  with example_weekDatesValid h1 h2 h3 h4 show ?thesis by blast
qed

text \<open>
  C4 (cross-training ranges), as the code has it. A blocked range has a start, an end and
  an optional reason, and nothing that tells rest from cross-training. With a range
  \<open>Skiing\<close> on Friday, an easy-run day of the base week, Friday becomes a rest day whose
  note is the reason; it does not become a cross-training assignment.
\<close>

theorem blocked_friday_is_rest_not_cross_training:
  "isDayBlocked febAddDays febFormat Friday exampleWeekStart fridaySkiing
     = Some \<lparr> blocked = True, reason = Some ''Skiing'' \<rparr>
   \<and> map_option (map (\<lambda>(d, w). (d, rtype w, totalDistance w, workout_notes w)))
        (generateRunningSchedule febAddDays febFormat baseWeekTemplate examplePaceZones Base False
           Moderate fridaySkiing exampleWeekStart)
      = Some [(Sunday, Long, Some 10, None), (Tuesday, Tempo, Some 6, None),
              (Monday, Easy, Some 4, None), (Wednesday, Easy, Some 4, None),
              (Friday, Rest, None, Some ''Skiing''), (Thursday, Rest, None, None),
              (Saturday, Cross_training, None, None)]"
  using sched_fridaySkiing by (simp add: blk_fridaySkiing)

text \<open>
  C4, amended. When a blocked range covers a day of the week, the workout that the schedule
  holds for that day, if any, is never a cross-training assignment. Which workout it is
  follows from how the template lists the day: a quality day holds an easy run one mile
  shorter than the default, titled with the reason; otherwise the long-run day, when the long
  run is not moved, holds a rest day whose note is the reason; otherwise an easy-run day
  holds a rest day whose note is the reason; otherwise a rest day of the template holds a
  rest day without a note; otherwise the cross-training day holds a rest day whose note is
  the reason; and a day in none of these cases holds nothing. This is stated for every
  blocked day but one: the original day of a moved long run that the template lists nowhere
  else. The strength scheduler does not read the blocked ranges: if the day passes
  \<open>canLiftOnDay\<close> on the realized run types and is the athlete's one preferred day, a base
  week gives it the strength session.
\<close>

theorem blocked_day_is_rest_or_easy:
  assumes "generateRunningSchedule addDays format template paceZones phase isRecovery level
             blockedDates weekStart = Some S"
    and "isDayBlocked addDays format d weekStart blockedDates = Some b"
    and "blocked b"
  shows "(\<forall>w. map_of S d = Some w \<longrightarrow> rtype w \<noteq> Cross_training)
       \<and> (\<not> (d = longRunDay template
               \<and> longRunMoves (\<lambda>day. isDayBlocked addDays format day weekStart blockedDates)
                    template
               \<and> d \<notin> listedDays template)
            \<longrightarrow> map_of S d =
                  (if d \<in> q_day ` set (qualityDays template)
                   then Some (createEasyRun (getDefaultEasyDistance level phase - 1) paceZones
                                (''Easy Run (adjusted: '' @ reasonText (reason b) @ '')''))
                   else if d = longRunDay template
                           \<and> \<not> longRunMoves
                                 (\<lambda>day. isDayBlocked addDays format day weekStart blockedDates)
                                 template
                   then Some (createRestDay (reason b))
                   else if d \<in> set (easyRunDays template) then Some (createRestDay (reason b))
                   else if d \<in> set (restDays template) then Some (createRestDay None)
                   else if crossTrainingDay template = Some d
                   then Some (createRestDay (reason b))
                   else None))
       \<and> (canLiftOnDay d (workoutTypes S) \<longrightarrow>
            map fst (scheduleStrengthForWeek (workoutTypes S) (onlyDay d) Base False) = [d])"
proof (intro conjI allI impI)
  let ?blk = "\<lambda>day. isDayBlocked addDays format day weekStart blockedDates"
  from assms(1) obtain lb adj where
    l: "?blk (longRunDay template) = Some lb" and
    ad: "adjustLongRun ?blk template lb = Some adj" and
    sf: "scheduleFrom ?blk template paceZones phase isRecovery level lb adj = Some S"
    by (rule generateRunningSchedule_steps)
  {
    fix w
    assume m: "map_of S d = Some w"
    have "blockedOk ?blk paceZones phase level S"
      using sf l ad by (rule scheduleFrom_blockedOk)
    with assms(2,3) m have "allowedOnBlocked paceZones phase level b w"
      unfolding blockedOk_def by blast
    from allowedOnBlocked_rtype[OF this] show "rtype w \<noteq> Cross_training" by auto
  }
  show "map_of S d =
          (if d \<in> q_day ` set (qualityDays template)
           then Some (createEasyRun (getDefaultEasyDistance level phase - 1) paceZones
                        (''Easy Run (adjusted: '' @ reasonText (reason b) @ '')''))
           else if d = longRunDay template \<and> \<not> longRunMoves ?blk template
           then Some (createRestDay (reason b))
           else if d \<in> set (easyRunDays template) then Some (createRestDay (reason b))
           else if d \<in> set (restDays template) then Some (createRestDay None)
           else if crossTrainingDay template = Some d
           then Some (createRestDay (reason b))
           else None)"
    using sf l ad assms(2,3) by (rule blocked_day_value[of ?blk])
next
  assume "canLiftOnDay d (workoutTypes S)"
  then show "map fst (scheduleStrengthForWeek (workoutTypes S) (onlyDay d) Base False) = [d]"
    by (rule preferred_day_gets_session)
qed

theorem blocked_day_is_rest_or_easy_witness:
  "\<exists>S. generateRunningSchedule febAddDays febFormat baseWeekTemplate examplePaceZones Base
          False Moderate weekAway exampleWeekStart = Some S
      \<and> map_of S Tuesday
          = Some (createEasyRun 3 examplePaceZones ''Easy Run (adjusted: Skiing)'')
      \<and> map_of S Wednesday = Some (createRestDay (Some ''Skiing''))
      \<and> map_of S Thursday = Some (createRestDay None)
      \<and> map_of S Saturday = Some (createRestDay (Some ''Skiing''))
      \<and> map_of S Sunday = Some (createRestDay (Some ''Skiing''))
      \<and> canLiftOnDay Friday (workoutTypes S)
      \<and> map fst (scheduleStrengthForWeek (workoutTypes S) (onlyDay Friday) Base False) = [Friday]"
proof -
  from generateRunningSchedule_total[OF example_weekDatesValid] obtain S where
    g: "generateRunningSchedule febAddDays febFormat baseWeekTemplate examplePaceZones Base
          False Moderate weekAway exampleWeekStart = Some S" by blast
  have b: "isDayBlocked febAddDays febFormat d exampleWeekStart weekAway
             = Some \<lparr> blocked = True, reason = Some ''Skiing'' \<rparr>" if "d \<noteq> Monday" for d
    using that by (simp add: blk_weekAway)
  have bb: "blocked \<lparr> blocked = True, reason = Some ''Skiing'' \<rparr>" by simp
  note t = blocked_day_is_rest_or_easy[OF g b bb]
  have tu: "map_of S Tuesday
              = Some (createEasyRun 3 examplePaceZones ''Easy Run (adjusted: Skiing)'')"
    using t[of Tuesday]
    by (simp add: moves_weekAway baseWeekTemplate_def getDefaultEasyDistance_def reasonText_def)
  have we: "map_of S Wednesday = Some (createRestDay (Some ''Skiing''))"
    using t[of Wednesday] by (simp add: moves_weekAway baseWeekTemplate_def)
  have th: "map_of S Thursday = Some (createRestDay None)"
    using t[of Thursday] by (simp add: moves_weekAway baseWeekTemplate_def)
  have sa: "map_of S Saturday = Some (createRestDay (Some ''Skiing''))"
    using t[of Saturday] by (simp add: moves_weekAway baseWeekTemplate_def)
  have su: "map_of S Sunday = Some (createRestDay (Some ''Skiing''))"
    using t[of Sunday] moves_weekAway by (simp add: baseWeekTemplate_def)
  have c: "canLiftOnDay Friday (workoutTypes S)"
    by (simp add: canLiftOnDay_iff getNextDay_simps workoutTypes_map_of sa createRestDay_def
        truthyAnd_def isLongRun_iff)
  from t[of Friday] c
  have s: "map fst (scheduleStrengthForWeek (workoutTypes S) (onlyDay Friday) Base False)
             = [Friday]" by simp
  show ?thesis
    by (rule exI[of _ S], intro conjI) (fact g tu we th sa su c s)+
qed

section \<open>Properties of the week totals\<close>





end
